theory Spec2Isabelle
  imports Complex_Main
begin

chapter \<open>The model\<close>

section \<open>Exceptions\<close>

text \<open>
  The Python exceptions that the modelled code, numpy, scipy and the standard library can
  raise on the paths modelled here.
\<close>

datatype error =
    ValueError
  | LinAlgError
  | IndexError
  | ZeroDivisionError
  | NotFinite
  | AttributeError
  | OutsideModel

text \<open>
  \<open>NotFinite\<close> and \<open>OutsideModel\<close> are not exceptions. \<open>NotFinite\<close> marks a result that
  numpy returns with \<^verbatim>\<open>nan\<close> or \<^verbatim>\<open>inf\<close> entries (after a \<^verbatim>\<open>RuntimeWarning\<close>) where the
  exact arithmetic of the array model has no value to give: a division of an array by
  zero. \<open>OutsideModel\<close> marks an input for which Python computes with values that the
  model has no type for.
\<close>

section \<open>Dense matrices (estimators.py)\<close>

text \<open>
  A rank-2 \<^verbatim>\<open>numpy.ndarray\<close> of complex numbers: its shape and its rows. The linear
  algebra of \<^verbatim>\<open>estimators.py\<close> is modelled over the field of complex numbers, so the
  rounding of the floating-point operations is not part of the model.
\<close>

datatype ndarray = NDArray (nrows: nat) (ncols: nat) (rows: "complex list list")

definition wf_nd :: "ndarray \<Rightarrow> bool" where
  "wf_nd A = (length (rows A) = nrows A \<and> list_all (\<lambda>r. length r = ncols A) (rows A))"

definition entry :: "ndarray \<Rightarrow> nat \<Rightarrow> nat \<Rightarrow> complex" where
  "entry A i j = rows A ! i ! j"

definition build :: "nat \<Rightarrow> nat \<Rightarrow> (nat \<Rightarrow> nat \<Rightarrow> complex) \<Rightarrow> ndarray" where
  "build n m f = NDArray n m (map (\<lambda>i. map (f i) [0..<m]) [0..<n])"

text \<open>\<^verbatim>\<open>numpy.identity(n)\<close>.\<close>

definition identity :: "nat \<Rightarrow> ndarray" where
  "identity n = build n n (\<lambda>i j. if i = j then 1 else 0)"

text \<open>\<^verbatim>\<open>A.conj()\<close> and \<^verbatim>\<open>A.T\<close>.\<close>

definition conj_nd :: "ndarray \<Rightarrow> ndarray" where
  "conj_nd A = build (nrows A) (ncols A) (\<lambda>i j. cnj (entry A i j))"

definition transpose_nd :: "ndarray \<Rightarrow> ndarray" where
  "transpose_nd A = build (ncols A) (nrows A) (\<lambda>i j. entry A j i)"

text \<open>
  The matrix product of an \<open>n \<times> m\<close> array with an array of \<open>m\<close> rows, and \<^verbatim>\<open>A.dot(B)\<close>,
  which raises \<^verbatim>\<open>ValueError\<close> when the inner dimensions differ.
\<close>

definition mmul :: "ndarray \<Rightarrow> ndarray \<Rightarrow> ndarray" where
  "mmul A B = build (nrows A) (ncols B)
     (\<lambda>i j. sum_list (map (\<lambda>k. entry A i k * entry B k j) [0..<ncols A]))"

definition dot :: "ndarray \<Rightarrow> ndarray \<Rightarrow> error + ndarray" where
  "dot A B = (if ncols A = nrows B then Inr (mmul A B) else Inl ValueError)"

subsection \<open>The one-particle Green's function\<close>

text \<open>
  \<^verbatim>\<open>gab(A, B)\<close>. \<^verbatim>\<open>scipy.linalg.inv\<close> is a library routine and is a parameter of the model;
  an exception raised by it, or by a product of mismatched shapes, leaves \<^verbatim>\<open>gab\<close>.
\<close>

definition gab :: "(ndarray \<Rightarrow> error + ndarray) \<Rightarrow> ndarray \<Rightarrow> ndarray \<Rightarrow> error + ndarray" where
  "gab linv A B =
     (case dot (transpose_nd (conj_nd A)) B of
        Inl e \<Rightarrow> Inl e
      | Inr S \<Rightarrow>
          (case linv S of
             Inl e \<Rightarrow> Inl e
           | Inr inv_O \<Rightarrow>
               (case dot inv_O (transpose_nd (conj_nd A)) of
                  Inl e \<Rightarrow> Inl e
                | Inr Y \<Rightarrow>
                    (case dot B Y of
                       Inl e \<Rightarrow> Inl e
                     | Inr Z \<Rightarrow> Inr (transpose_nd Z)))))"

text \<open>
  \<open>X\<close> is a two-sided inverse of \<open>S\<close>: both products exist and are the identity.
\<close>

definition is_inverse :: "ndarray \<Rightarrow> ndarray \<Rightarrow> bool" where
  "is_inverse S X =
     (dot S X = Inr (identity (nrows S)) \<and> dot X S = Inr (identity (nrows S)))"

subsection \<open>Elementwise operations and sums\<close>

text \<open>
  numpy's broadcasting of two rank-2 shapes: along each axis the lengths are equal or one
  of them is 1, otherwise \<^verbatim>\<open>ValueError\<close>.
\<close>

definition bshape :: "nat \<Rightarrow> nat \<Rightarrow> nat option" where
  "bshape a b = (if a = b then Some a else if a = 1 then Some b else if b = 1 then Some a else None)"

definition bindex :: "nat \<Rightarrow> nat \<Rightarrow> nat" where
  "bindex n i = (if n = 1 then 0 else i)"

definition elementwise ::
  "(complex \<Rightarrow> complex \<Rightarrow> complex) \<Rightarrow> ndarray \<Rightarrow> ndarray \<Rightarrow> error + ndarray" where
  "elementwise f A B =
     (case bshape (nrows A) (nrows B) of
        None \<Rightarrow> Inl ValueError
      | Some n \<Rightarrow>
          (case bshape (ncols A) (ncols B) of
             None \<Rightarrow> Inl ValueError
           | Some m \<Rightarrow>
               Inr (build n m (\<lambda>i j.
                 f (entry A (bindex (nrows A) i) (bindex (ncols A) j))
                   (entry B (bindex (nrows B) i) (bindex (ncols B) j))))))"

definition add_nd :: "ndarray \<Rightarrow> ndarray \<Rightarrow> error + ndarray" where
  "add_nd = elementwise (+)"

definition sub_nd :: "ndarray \<Rightarrow> ndarray \<Rightarrow> error + ndarray" where
  "sub_nd = elementwise (-)"

definition mul_nd :: "ndarray \<Rightarrow> ndarray \<Rightarrow> error + ndarray" where
  "mul_nd = elementwise (*)"

text \<open>\<^verbatim>\<open>numpy.sum(A)\<close>: the sum of all entries.\<close>

definition sum_nd :: "ndarray \<Rightarrow> complex" where
  "sum_nd A = sum_list (map (\<lambda>i. sum_list (map (entry A i) [0..<ncols A])) [0..<nrows A])"

text \<open>\<^verbatim>\<open>G[i][i]\<close>, which raises \<^verbatim>\<open>IndexError\<close> out of range.\<close>

definition diag_item :: "ndarray \<Rightarrow> nat \<Rightarrow> error + complex" where
  "diag_item G i = (if i < nrows G \<and> i < ncols G then Inr (entry G i i) else Inl IndexError)"

subsection \<open>Local energy and back-propagated energy\<close>

text \<open>
  The fields of the Hubbard system that \<^verbatim>\<open>local_energy\<close> reads, and the fields of a walker
  that \<^verbatim>\<open>back_propagated_energy\<close> reads. \<^verbatim>\<open>phi\<close> and the Green's function \<^verbatim>\<open>G\<close> are
  two-element lists (spin up, spin down) in the source and pairs here.
\<close>

record system =
  sys_T :: ndarray
  sys_U :: complex
  nbasis :: nat

record walker =
  weight :: real
  phi :: "ndarray \<times> ndarray"

text \<open>
  The generator sum of \<^verbatim>\<open>local_energy\<close>, from the left, leaving at the first
  \<^verbatim>\<open>IndexError\<close>.
\<close>

fun pe_sum :: "complex \<Rightarrow> ndarray \<Rightarrow> ndarray \<Rightarrow> complex \<Rightarrow> nat list \<Rightarrow> error + complex" where
  "pe_sum u G0 G1 acc [] = Inr acc"
| "pe_sum u G0 G1 acc (i # is) =
     (case diag_item G0 i of
        Inl e \<Rightarrow> Inl e
      | Inr a \<Rightarrow>
          (case diag_item G1 i of
             Inl e \<Rightarrow> Inl e
           | Inr b \<Rightarrow> pe_sum u G0 G1 (acc + u * a * b) is))"

definition local_energy :: "system \<Rightarrow> ndarray \<times> ndarray \<Rightarrow> error + (complex \<times> complex \<times> complex)" where
  "local_energy sys G =
     (case add_nd (fst G) (snd G) of
        Inl e \<Rightarrow> Inl e
      | Inr GG \<Rightarrow>
          (case mul_nd (sys_T sys) GG of
             Inl e \<Rightarrow> Inl e
           | Inr TG \<Rightarrow>
               (let ke = sum_nd TG in
                case pe_sum (sys_U sys) (fst G) (snd G) 0 [0..<nbasis sys] of
                  Inl e \<Rightarrow> Inl e
                | Inr pe \<Rightarrow> Inr (ke + pe, ke, pe))))"

text \<open>
  The loop of \<^verbatim>\<open>back_propagated_energy\<close> over \<^verbatim>\<open>zip(psi, psit, psib)\<close>, with the
  running \<^verbatim>\<open>estimates\<close>.
\<close>

fun bp_loop ::
  "(ndarray \<Rightarrow> error + ndarray) \<Rightarrow> system \<Rightarrow> complex \<times> complex \<times> complex \<Rightarrow>
   (walker \<times> walker \<times> walker) list \<Rightarrow> error + (complex \<times> complex \<times> complex)" where
  "bp_loop linv sys estimates [] = Inr estimates"
| "bp_loop linv sys estimates ((w, wt, wb) # rest) =
     (case gab linv (fst (phi wb)) (fst (phi wt)) of
        Inl e \<Rightarrow> Inl e
      | Inr GTB0 \<Rightarrow>
          (case gab linv (snd (phi wb)) (snd (phi wt)) of
             Inl e \<Rightarrow> Inl e
           | Inr GTB1 \<Rightarrow>
               (case local_energy sys (GTB0, GTB1) of
                  Inl e \<Rightarrow> Inl e
                | Inr (e, k, p) \<Rightarrow>
                    (case estimates of (se, sk, sp) \<Rightarrow>
                       bp_loop linv sys
                         (se + of_real (weight w) * e,
                          sk + of_real (weight w) * k,
                          sp + of_real (weight w) * p) rest))))"

definition back_propagated_energy ::
  "(ndarray \<Rightarrow> error + ndarray) \<Rightarrow> system \<Rightarrow> walker list \<Rightarrow> walker list \<Rightarrow> walker list \<Rightarrow>
   error + (complex \<times> complex \<times> complex)" where
  "back_propagated_energy linv sys psi psit psib =
     (let denominator = sum_list (map weight psi) in
      case bp_loop linv sys (0, 0, 0) (zip psi (zip psit psib)) of
        Inl e \<Rightarrow> Inl e
      | Inr (se, sk, sp) \<Rightarrow>
          if denominator = 0 then Inl NotFinite
          else Inr (se / of_real denominator, sk / of_real denominator, sp / of_real denominator))"

subsection \<open>A reference inverse\<close>

text \<open>
  Modelled from the spec: \<^verbatim>\<open>scipy.linalg.inv\<close> is not part of the repository. The spec says
  that the overlap matrix is inverted and that the operation fails when it is singular;
  SciPy raises \<^verbatim>\<open>ValueError\<close> for an array that is not square and \<^verbatim>\<open>LinAlgError\<close> for a
  singular one. \<open>inv_exact\<close> is Gauss-Jordan elimination on \<open>[S | I]\<close> in exact arithmetic.
  It instantiates the parameter \<open>linv\<close> of \<open>gab\<close> at concrete inputs.
\<close>

definition row_sub :: "complex \<Rightarrow> complex list \<Rightarrow> complex list \<Rightarrow> complex list" where
  "row_sub f p r = map2 (\<lambda>x y. y - f * x) p r"

definition find_pivot :: "nat \<Rightarrow> complex list list \<Rightarrow> nat option" where
  "find_pivot c M =
     (case filter (\<lambda>i. M ! i ! c \<noteq> 0) [c..<length M] of [] \<Rightarrow> None | i # _ \<Rightarrow> Some i)"

fun gauss_jordan :: "nat \<Rightarrow> nat \<Rightarrow> complex list list \<Rightarrow> complex list list option" where
  "gauss_jordan 0 c M = Some M"
| "gauss_jordan (Suc k) c M =
     (case find_pivot c M of
        None \<Rightarrow> None
      | Some r \<Rightarrow>
          (let M1 = M[c := M ! r, r := M ! c];
               p = map (\<lambda>x. x / (M1 ! c ! c)) (M1 ! c);
               M2 = map (\<lambda>i. if i = c then p else row_sub (M1 ! i ! c) p (M1 ! i))
                        [0..<length M1]
           in gauss_jordan k (Suc c) M2))"

definition inv_exact :: "ndarray \<Rightarrow> error + ndarray" where
  "inv_exact S =
     (if nrows S \<noteq> ncols S then Inl ValueError
      else (case gauss_jordan (nrows S) 0
                   (map (\<lambda>i. map (entry S i) [0..<nrows S]
                             @ map (entry (identity (nrows S)) i) [0..<nrows S])
                        [0..<nrows S]) of
              None \<Rightarrow> Inl LinAlgError
            | Some M \<Rightarrow> Inr (build (nrows S) (nrows S) (\<lambda>i j. M ! i ! (nrows S + j)))))"

subsection \<open>Concrete determinants\<close>

text \<open>
  Two determinants with two orbitals on three sites, their overlap and its inverse.
\<close>

definition A0 :: ndarray where
  "A0 = NDArray 3 2 [[1, 0], [\<i>, 1], [0, 1]]"

definition B0 :: ndarray where
  "B0 = NDArray 3 2 [[1, 1], [0, 1], [1, 0]]"

definition S0 :: ndarray where
  "S0 = NDArray 2 2 [[1, 1 - \<i>], [1, 1]]"

definition X0 :: ndarray where
  "X0 = NDArray 2 2 [[- \<i>, 1 + \<i>], [\<i>, - \<i>]]"

text \<open>
  A normalised determinant with one orbital on two sites; an overlap matrix with
  determinant \<open>2\<^sup>-\<^sup>5\<^sup>0\<close> (all of its entries, and those of its inverse, are binary
  floating-point numbers); and a two-site Hubbard chain with a walker on it.
\<close>

definition A1 :: ndarray where
  "A1 = NDArray 2 1 [[3 / 5], [4 * \<i> / 5]]"

definition A2 :: ndarray where
  "A2 = NDArray 2 2 [[1, 0], [0, 1]]"

definition B2 :: ndarray where
  "B2 = NDArray 2 2 [[1, 1], [1, 1 + 1 / 2 ^ 50]]"

definition U1 :: ndarray where
  "U1 = NDArray 2 1 [[1], [1]]"

definition hubbard2 :: system where
  "hubbard2 = \<lparr>sys_T = NDArray 2 2 [[0, -1], [-1, 0]], sys_U = 4, nbasis = 2\<rparr>"

definition bp_walker1 :: walker where
  "bp_walker1 = \<lparr>weight = 2, phi = (A1, U1)\<rparr>"

section \<open>Floating-point values (continuous.py)\<close>

text \<open>
  The propagator branches on values that are not numbers, so its scalars are modelled as
  IEEE-754 doubles with the rounding left out: a finite value is an exact real, and
  \<^verbatim>\<open>inf\<close>, \<^verbatim>\<open>-inf\<close> and \<^verbatim>\<open>nan\<close> are values of their own. Overflow, underflow and the sign
  of zero are not modelled. Arithmetic follows the IEEE rules that numpy scalars follow:
  no exception is raised, a division by zero gives an infinity or \<^verbatim>\<open>nan\<close>.
\<close>

datatype fl = Fin real | PInf | NInf | NaN

type_synonym cfl = "fl \<times> fl"

definition inf_of_sign :: "real \<Rightarrow> fl" where
  "inf_of_sign s = (if s = 0 then NaN else if 0 < s then PInf else NInf)"

fun fl_neg :: "fl \<Rightarrow> fl" where
  "fl_neg (Fin a) = Fin (- a)"
| "fl_neg PInf = NInf"
| "fl_neg NInf = PInf"
| "fl_neg NaN = NaN"

fun fl_add :: "fl \<Rightarrow> fl \<Rightarrow> fl" where
  "fl_add NaN b = NaN"
| "fl_add a NaN = NaN"
| "fl_add (Fin a) (Fin b) = Fin (a + b)"
| "fl_add PInf NInf = NaN"
| "fl_add NInf PInf = NaN"
| "fl_add PInf b = PInf"
| "fl_add a PInf = PInf"
| "fl_add NInf b = NInf"
| "fl_add a NInf = NInf"

definition fl_sub :: "fl \<Rightarrow> fl \<Rightarrow> fl" where
  "fl_sub a b = fl_add a (fl_neg b)"

fun fl_mul :: "fl \<Rightarrow> fl \<Rightarrow> fl" where
  "fl_mul NaN b = NaN"
| "fl_mul a NaN = NaN"
| "fl_mul (Fin a) (Fin b) = Fin (a * b)"
| "fl_mul (Fin a) PInf = inf_of_sign a"
| "fl_mul (Fin a) NInf = inf_of_sign (- a)"
| "fl_mul PInf (Fin b) = inf_of_sign b"
| "fl_mul NInf (Fin b) = inf_of_sign (- b)"
| "fl_mul PInf PInf = PInf"
| "fl_mul PInf NInf = NInf"
| "fl_mul NInf PInf = NInf"
| "fl_mul NInf NInf = PInf"

fun fl_div :: "fl \<Rightarrow> fl \<Rightarrow> fl" where
  "fl_div NaN b = NaN"
| "fl_div a NaN = NaN"
| "fl_div (Fin a) (Fin b) = (if b = 0 then inf_of_sign a else Fin (a / b))"
| "fl_div (Fin a) b = Fin 0"
| "fl_div PInf (Fin b) = (if 0 \<le> b then PInf else NInf)"
| "fl_div NInf (Fin b) = (if 0 \<le> b then NInf else PInf)"
| "fl_div a b = NaN"

fun fl_abs :: "fl \<Rightarrow> fl" where
  "fl_abs (Fin a) = Fin \<bar>a\<bar>"
| "fl_abs PInf = PInf"
| "fl_abs NInf = PInf"
| "fl_abs NaN = NaN"

text \<open>Comparisons: every comparison with \<^verbatim>\<open>nan\<close> is false.\<close>

fun fl_lt :: "fl \<Rightarrow> fl \<Rightarrow> bool" where
  "fl_lt NaN b = False"
| "fl_lt a NaN = False"
| "fl_lt (Fin a) (Fin b) = (a < b)"
| "fl_lt a NInf = False"
| "fl_lt PInf b = False"
| "fl_lt NInf b = True"
| "fl_lt a PInf = True"

definition fl_gt :: "fl \<Rightarrow> fl \<Rightarrow> bool" where
  "fl_gt a b = fl_lt b a"

definition fl_ge :: "fl \<Rightarrow> fl \<Rightarrow> bool" where
  "fl_ge a b = (a \<noteq> NaN \<and> b \<noteq> NaN \<and> \<not> fl_lt a b)"

text \<open>\<^verbatim>\<open>math.isinf\<close>, and Python's \<^verbatim>\<open>max(0, x)\<close>, which keeps \<open>0\<close> unless \<open>x > 0\<close>.\<close>

definition isinf :: "fl \<Rightarrow> bool" where
  "isinf x = (x = PInf \<or> x = NInf)"

definition max0 :: "fl \<Rightarrow> fl" where
  "max0 x = (if fl_gt x (Fin 0) then x else Fin 0)"

subsection \<open>Complex scalars\<close>

text \<open>
  A complex scalar is its real and imaginary part. Sum and product are the componentwise
  formulas; a real operand is promoted to a complex one with imaginary part zero first, as
  Python and numpy do. The quotient is numpy's (Smith's formula).
\<close>

definition cfin :: "complex \<Rightarrow> cfl" where
  "cfin z = (Fin (Re z), Fin (Im z))"

definition cfl_of :: "fl \<Rightarrow> cfl" where
  "cfl_of x = (x, Fin 0)"

definition cfl_neg :: "cfl \<Rightarrow> cfl" where
  "cfl_neg z = (fl_neg (fst z), fl_neg (snd z))"

definition cfl_add :: "cfl \<Rightarrow> cfl \<Rightarrow> cfl" where
  "cfl_add z w = (fl_add (fst z) (fst w), fl_add (snd z) (snd w))"

definition cfl_sub :: "cfl \<Rightarrow> cfl \<Rightarrow> cfl" where
  "cfl_sub z w = (fl_sub (fst z) (fst w), fl_sub (snd z) (snd w))"

definition cfl_mul :: "cfl \<Rightarrow> cfl \<Rightarrow> cfl" where
  "cfl_mul z w =
     (fl_sub (fl_mul (fst z) (fst w)) (fl_mul (snd z) (snd w)),
      fl_add (fl_mul (fst z) (snd w)) (fl_mul (snd z) (fst w)))"

definition cfl_div :: "cfl \<Rightarrow> cfl \<Rightarrow> cfl" where
  "cfl_div z w =
     (let ar = fst z; ai = snd z; br = fst w; bi = snd w in
      if fl_ge (fl_abs br) (fl_abs bi) then
        (if fl_abs br = Fin 0 \<and> fl_abs bi = Fin 0
         then (fl_div ar (fl_abs br), fl_div ai (fl_abs br))
         else
           (let rat = fl_div bi br;
                scl = fl_div (Fin 1) (fl_add br (fl_mul bi rat))
            in (fl_mul (fl_add ar (fl_mul ai rat)) scl,
                fl_mul (fl_sub ai (fl_mul ar rat)) scl)))
      else
        (let rat = fl_div br bi;
             scl = fl_div (Fin 1) (fl_add bi (fl_mul br rat))
         in (fl_mul (fl_add (fl_mul ar rat) ai) scl,
             fl_mul (fl_sub (fl_mul ai rat) ar) scl)))"

text \<open>
  \<^verbatim>\<open>numpy.absolute\<close> and the modulus of \<^verbatim>\<open>cmath.polar\<close> (\<^verbatim>\<open>hypot\<close>): infinite when a part
  is infinite, otherwise \<^verbatim>\<open>nan\<close> when a part is \<^verbatim>\<open>nan\<close>.
\<close>

fun cfl_abs :: "cfl \<Rightarrow> fl" where
  "cfl_abs (Fin a, Fin b) = Fin (cmod (Complex a b))"
| "cfl_abs (PInf, b) = PInf"
| "cfl_abs (NInf, b) = PInf"
| "cfl_abs (a, PInf) = PInf"
| "cfl_abs (a, NInf) = PInf"
| "cfl_abs (a, b) = NaN"

subsection \<open>The standard library\<close>

text \<open>
  \<^verbatim>\<open>math.exp\<close>, \<^verbatim>\<open>math.cos\<close>, \<^verbatim>\<open>cmath.exp\<close>, \<^verbatim>\<open>cmath.log\<close> and \<^verbatim>\<open>cmath.polar\<close> are not
  code of the repository. On finite arguments they are the mathematical functions; on the
  other arguments they follow the special-value tables of C99 (Annex F and G) that CPython
  implements, and raise \<^verbatim>\<open>ValueError\<close> where CPython does. \<^verbatim>\<open>OverflowError\<close> cannot occur,
  since finite values do not overflow here.
\<close>

fun py_exp :: "fl \<Rightarrow> fl" where
  "py_exp (Fin x) = Fin (exp x)"
| "py_exp PInf = PInf"
| "py_exp NInf = Fin 0"
| "py_exp NaN = NaN"

fun py_cos :: "fl \<Rightarrow> error + fl" where
  "py_cos (Fin x) = Inr (Fin (cos x))"
| "py_cos NaN = Inr NaN"
| "py_cos PInf = Inl ValueError"
| "py_cos NInf = Inl ValueError"

fun ln_modulus :: "fl \<Rightarrow> fl" where
  "ln_modulus (Fin x) = Fin (ln x)"
| "ln_modulus PInf = PInf"
| "ln_modulus y = NaN"

text \<open>\<^verbatim>\<open>atan2(y, x)\<close>, the phase of \<open>x + iy\<close>.\<close>

fun py_atan2 :: "fl \<Rightarrow> fl \<Rightarrow> fl" where
  "py_atan2 NaN x = NaN"
| "py_atan2 y NaN = NaN"
| "py_atan2 (Fin y) (Fin x) = Fin (Arg (Complex x y))"
| "py_atan2 (Fin y) PInf = Fin 0"
| "py_atan2 (Fin y) NInf = (if 0 \<le> y then Fin pi else Fin (- pi))"
| "py_atan2 PInf (Fin x) = Fin (pi / 2)"
| "py_atan2 PInf PInf = Fin (pi / 4)"
| "py_atan2 PInf NInf = Fin (3 * pi / 4)"
| "py_atan2 NInf (Fin x) = Fin (- (pi / 2))"
| "py_atan2 NInf PInf = Fin (- (pi / 4))"
| "py_atan2 NInf NInf = Fin (- (3 * pi / 4))"

definition py_polar :: "cfl \<Rightarrow> fl \<times> fl" where
  "py_polar z = (cfl_abs z, py_atan2 (snd z) (fst z))"

definition py_clog :: "cfl \<Rightarrow> error + cfl" where
  "py_clog z =
     (if z = (Fin 0, Fin 0) then Inl ValueError
      else Inr (ln_modulus (cfl_abs z), py_atan2 (snd z) (fst z)))"

fun py_cexp :: "cfl \<Rightarrow> error + cfl" where
  "py_cexp (Fin x, Fin y) = Inr (Fin (exp x * cos y), Fin (exp x * sin y))"
| "py_cexp (Fin x, NaN) = Inr (NaN, NaN)"
| "py_cexp (Fin x, y) = Inl ValueError"
| "py_cexp (PInf, Fin y) =
     (if y = 0 then Inr (PInf, Fin 0)
      else Inr (fl_mul PInf (Fin (cos y)), fl_mul PInf (Fin (sin y))))"
| "py_cexp (PInf, NaN) = Inr (PInf, NaN)"
| "py_cexp (PInf, y) = Inl ValueError"
| "py_cexp (NInf, y) = Inr (Fin 0, Fin 0)"
| "py_cexp (NaN, Fin y) = (if y = 0 then Inr (NaN, Fin 0) else Inr (NaN, NaN))"
| "py_cexp (NaN, y) = Inr (NaN, NaN)"

section \<open>The propagator (continuous.py)\<close>

subsection \<open>State\<close>

text \<open>
  The attributes of a \<^verbatim>\<open>Continuous\<close> object that the modelled methods read or write.
  \<^verbatim>\<open>free_projection\<close> and \<^verbatim>\<open>force_bias\<close> are only ever tested for truth, and hold the truth
  value of the option. \<^verbatim>\<open>isqrt_dt\<close>, \<^verbatim>\<open>BT_BP\<close> and \<^verbatim>\<open>nstblz\<close> are read by no modelled
  method and are left out; \<^verbatim>\<open>propagator\<close> is among the collaborators below.
\<close>

record continuous =
  free_projection :: bool
  force_bias :: bool
  exp_nmax :: int
  dt :: real
  sqrt_dt :: real
  mf_const_fac :: fl
  nfb_trig :: nat
  nhe_trig :: nat
  ebound :: fl
  mean_local_energy :: real
  verbose :: bool

text \<open>
  The attributes of a walker that the propagator reads or writes. The determinant with
  its cached inverse overlap and Green's function is data of the collaborators, of type
  \<open>'d\<close>. \<^verbatim>\<open>field_configs\<close> is \<open>None\<close> for a walker without that attribute; its
  \<^verbatim>\<open>update\<close> appends the shifted field and the pair \<^verbatim>\<open>wfac\<close>.
\<close>

record 'd pwalker =
  w_det :: 'd
  w_weight :: fl
  w_phase :: cfl
  w_ot :: cfl
  w_hybrid_energy :: cfl
  w_field_configs :: "(cfl list \<times> cfl \<times> cfl) list option"

text \<open>
  The collaborators: the system, the trial wavefunction, the propagator object chosen by
  \<^verbatim>\<open>get_continuous_propagator\<close>, the walker's own methods, and the array arithmetic on the
  blocks of the determinant (type \<open>'b\<close>) with the potential \<^verbatim>\<open>VHS\<close> (type \<open>'v\<close>). None
  of them is code of the repository; they are parameters.
\<close>

record ('d, 'b, 'v) collaborators =
  nfields :: nat
  ndown :: nat
  mf_core :: cfl
  mf_shift :: "cfl list"
  kinetic_real :: "'d \<Rightarrow> 'd"
  construct_force_bias :: "'d \<Rightarrow> cfl list"
  construct_VHS :: "cfl list \<Rightarrow> 'v"
  up_block :: "'d \<Rightarrow> 'b"
  set_up_block :: "'d \<Rightarrow> 'b \<Rightarrow> 'd"
  down_block :: "'d \<Rightarrow> 'b"
  set_down_block :: "'d \<Rightarrow> 'b \<Rightarrow> 'd"
  vhs_dot :: "'v \<Rightarrow> 'b \<Rightarrow> 'b"
  block_div :: "'b \<Rightarrow> nat \<Rightarrow> 'b"
  block_add :: "'b \<Rightarrow> 'b \<Rightarrow> 'b"
  inverse_overlap :: "'d \<Rightarrow> 'd"
  greens_function :: "'d \<Rightarrow> 'd"
  calc_otrial :: "'d \<Rightarrow> cfl"

text \<open>
  How a call ends: it returns a value, or it raises; either way the propagator and the
  walker are left in the state reached, since both are mutated in place.
\<close>

datatype ('s, 'a) outcome = Returned 's 'a | Raised 's error

fun final_state :: "('s, 'a) outcome \<Rightarrow> 's" where
  "final_state (Returned s a) = s"
| "final_state (Raised s e) = s"

subsection \<open>Construction\<close>

text \<open>
  The option dictionary holds Python values; \<^verbatim>\<open>options.get(key, default)\<close> is a lookup
  with a default.
\<close>

datatype pyval = PyBool bool | PyInt int

fun truthy :: "pyval \<Rightarrow> bool" where
  "truthy (PyBool b) = b"
| "truthy (PyInt n) = (n \<noteq> 0)"

fun int_of_pyval :: "pyval \<Rightarrow> int" where
  "int_of_pyval (PyBool b) = (if b then 1 else 0)"
| "int_of_pyval (PyInt n) = n"

definition dict_get :: "(string \<rightharpoonup> pyval) \<Rightarrow> string \<Rightarrow> pyval \<Rightarrow> pyval" where
  "dict_get options k d = (case options k of None \<Rightarrow> d | Some v \<Rightarrow> v)"

text \<open>
  \<^verbatim>\<open>Continuous.__init__\<close>. \<^verbatim>\<open>get_continuous_propagator\<close> returns \<^verbatim>\<open>None\<close> for a system name
  other than the three it knows, and the attribute access on it then raises. The time step
  is a Python float: \<^verbatim>\<open>2.0/self.dt\<close> raises for a zero time step. For a negative time step
  Python's \<^verbatim>\<open>**0.5\<close> gives complex numbers, which the record does not hold: that case is
  outside the model (\<open>OutsideModel\<close> is no Python exception).
\<close>

definition Continuous_init ::
  "string \<Rightarrow> ('d, 'b, 'v) collaborators \<Rightarrow> real \<Rightarrow> (string \<rightharpoonup> pyval) \<Rightarrow> bool \<Rightarrow> error + continuous" where
  "Continuous_init name ext qmc_dt options verb =
     (let fp = truthy (dict_get options ''free_projection'' (PyBool False));
          fb0 = truthy (dict_get options ''force_bias'' (PyBool True));
          fb = (if fp then False else fb0);
          nmax = int_of_pyval (dict_get options ''expansion_order'' (PyInt 6))
      in if qmc_dt < 0 then Inl OutsideModel
         else if name \<noteq> ''UEG'' \<and> name \<noteq> ''Hubbard'' \<and> name \<noteq> ''Generic'' then Inl AttributeError
         else if qmc_dt = 0 then Inl ZeroDivisionError
         else Inr \<lparr>free_projection = fp, force_bias = fb, exp_nmax = nmax,
                   dt = qmc_dt, sqrt_dt = sqrt qmc_dt,
                   mf_const_fac = py_exp (fl_mul (Fin (- qmc_dt)) (fst (mf_core ext))),
                   nfb_trig = 0, nhe_trig = 0,
                   ebound = Fin (sqrt (2 / qmc_dt)),
                   mean_local_energy = 0, verbose = verb\<rparr>)"

subsection \<open>The exponential of the potential\<close>

text \<open>
  \<^verbatim>\<open>apply_exponential(phi, VHS)\<close> with \<^verbatim>\<open>debug=False\<close>, as every call in the file has it:
  the truncated Taylor series, with the running term \<^verbatim>\<open>Temp\<close>.
\<close>

definition apply_exponential ::
  "('d, 'b, 'v) collaborators \<Rightarrow> continuous \<Rightarrow> 'b \<Rightarrow> 'v \<Rightarrow> 'b" where
  "apply_exponential ext p blk VHS =
     snd (fold (\<lambda>n (Temp, acc).
                  (let Temp' = block_div ext (vhs_dot ext VHS Temp) n
                   in (Temp', block_add ext acc Temp')))
               [1..<nat (exp_nmax p + 1)] (blk, blk))"

subsection \<open>The two-body propagator\<close>

text \<open>One-dimensional arrays: the dot product, and the difference with broadcasting.\<close>

definition vdot :: "cfl list \<Rightarrow> cfl list \<Rightarrow> error + cfl" where
  "vdot xs ys =
     (if length xs = length ys
      then Inr (fold (\<lambda>(x, y) acc. cfl_add acc (cfl_mul x y)) (zip xs ys) (Fin 0, Fin 0))
      else Inl ValueError)"

definition vsub :: "cfl list \<Rightarrow> cfl list \<Rightarrow> error + cfl list" where
  "vsub xs ys =
     (if length xs = length ys then Inr (map2 cfl_sub xs ys)
      else if length xs = 1 then Inr (map (cfl_sub (xs ! 0)) ys)
      else if length ys = 1 then Inr (map (\<lambda>x. cfl_sub x (ys ! 0)) xs)
      else Inl ValueError)"

text \<open>
  The loop over the components of the force bias, at the index list still to visit:
  \<^verbatim>\<open>xbar[i]\<close> raises \<^verbatim>\<open>IndexError\<close> past the end of the array. A component of magnitude
  above 1 adds one to \<^verbatim>\<open>nfb_trig\<close> and is divided by its magnitude.
\<close>

fun rescale_force_bias ::
  "continuous \<Rightarrow> cfl list \<Rightarrow> nat list \<Rightarrow> (continuous, cfl list) outcome" where
  "rescale_force_bias p xbar [] = Returned p xbar"
| "rescale_force_bias p xbar (i # is) =
     (if length xbar \<le> i then Raised p IndexError
      else if fl_gt (cfl_abs (xbar ! i)) (Fin 1)
      then rescale_force_bias (p\<lparr>nfb_trig := nfb_trig p + 1\<rparr>)
             (xbar[i := cfl_div (xbar ! i) (cfl_of (cfl_abs (xbar ! i)))]) is
      else rescale_force_bias p xbar is)"

text \<open>
  \<^verbatim>\<open>two_body_propagator\<close>. The normal sample \<^verbatim>\<open>xi\<close> is an argument of the model.
\<close>

definition two_body_propagator ::
  "('d, 'b, 'v) collaborators \<Rightarrow> cfl list \<Rightarrow> continuous \<times> 'd pwalker \<Rightarrow>
   (continuous \<times> 'd pwalker, cfl \<times> cfl \<times> cfl list) outcome" where
  "two_body_propagator ext xi s =
     (case s of (p, w) \<Rightarrow>
      (let xbar0 = (if force_bias p then construct_force_bias ext (w_det w)
                    else replicate (nfields ext) (Fin 0, Fin 0))
       in case rescale_force_bias p xbar0 [0..<nfields ext] of
            Raised p1 e \<Rightarrow> Raised (p1, w) e
          | Returned p1 xbar \<Rightarrow>
              (case vsub xi xbar of
                 Inl e \<Rightarrow> Raised (p1, w) e
               | Inr xshifted \<Rightarrow>
                   (case vdot xshifted (mf_shift ext) of
                      Inl e \<Rightarrow> Raised (p1, w) e
                    | Inr d \<Rightarrow>
                        (let cmf = cfl_mul (cfl_of (Fin (- sqrt_dt p))) d in
                         case vdot xi xbar of
                           Inl e \<Rightarrow> Raised (p1, w) e
                         | Inr xx \<Rightarrow>
                             (case vdot xbar xbar of
                                Inl e \<Rightarrow> Raised (p1, w) e
                              | Inr bb \<Rightarrow>
                                  (let cfb = cfl_sub xx (cfl_mul (cfl_of (Fin (1 / 2))) bb);
                                       VHS = construct_VHS ext xshifted;
                                       d1 = set_up_block ext (w_det w)
                                              (apply_exponential ext p1 (up_block ext (w_det w)) VHS);
                                       d2 = (if 0 < ndown ext
                                             then set_down_block ext d1
                                                    (apply_exponential ext p1 (down_block ext d1) VHS)
                                             else d1)
                                   in Returned (p1, w\<lparr>w_det := d2\<rparr>) (cmf, cfb, xshifted))))))))"

subsection \<open>The energy bound\<close>

text \<open>
  \<^verbatim>\<open>apply_bound(ehyb, eshift)\<close>: the new hybrid energy, and the propagator with its
  counter. \<^verbatim>\<open>1j*ehyb.imag\<close> is a product of complex numbers.
\<close>

definition apply_bound :: "continuous \<Rightarrow> cfl \<Rightarrow> cfl \<Rightarrow> continuous \<times> cfl" where
  "apply_bound p ehyb eshift =
     (if fl_gt (fst ehyb) (fl_add (fst eshift) (ebound p))
      then (p\<lparr>nhe_trig := nhe_trig p + 1\<rparr>,
            cfl_add (cfl_of (fl_add (fst eshift) (ebound p)))
                    (cfl_mul (Fin 0, Fin 1) (cfl_of (snd ehyb))))
      else if fl_lt (fst ehyb) (fl_sub (fst eshift) (ebound p))
      then (p\<lparr>nhe_trig := nhe_trig p + 1\<rparr>,
            cfl_add (cfl_of (fl_sub (fst eshift) (ebound p)))
                    (cfl_mul (Fin 0, Fin 1) (cfl_of (snd ehyb))))
      else (p, ehyb))"

subsection \<open>The phaseless and the free-projection step\<close>

text \<open>
  \<^verbatim>\<open>propagate_walker_phaseless(walker, system, trial, eshift)\<close>, on the propagator and the
  walker, in two parts. The first part runs up to the importance function and returns
  what the second part needs of the local variables: \<^verbatim>\<open>cfb\<close>, \<^verbatim>\<open>xmxbar\<close>, \<^verbatim>\<open>ot_new\<close>,
  \<^verbatim>\<open>hybrid_energy\<close> and \<^verbatim>\<open>importance_function\<close>.
\<close>

definition phaseless_importance ::
  "('d, 'b, 'v) collaborators \<Rightarrow> cfl list \<Rightarrow> cfl \<Rightarrow> continuous \<times> 'd pwalker \<Rightarrow>
   (continuous \<times> 'd pwalker, cfl \<times> cfl list \<times> cfl \<times> cfl \<times> cfl) outcome" where
  "phaseless_importance ext xi eshift s =
     (case s of (p, w) \<Rightarrow>
      (case two_body_propagator ext xi (p, w\<lparr>w_det := kinetic_real ext (w_det w)\<rparr>) of
         Raised s1 e \<Rightarrow> Raised s1 e
       | Returned (p1, w1) (cmf, cfb, xmxbar) \<Rightarrow>
           (let w2 = w1\<lparr>w_det := greens_function ext
                             (inverse_overlap ext (kinetic_real ext (w_det w1)))\<rparr>;
                ot_new = calc_otrial ext (w_det w2);
                ovlp_ratio = cfl_div ot_new (w_ot w2)
            in case py_clog ovlp_ratio of
                 Inl e \<Rightarrow> Raised (p1, w2) e
               | Inr lg \<Rightarrow>
                   (case apply_bound p1
                           (cfl_div (cfl_neg (cfl_add (cfl_add lg cfb) cmf)) (cfl_of (Fin (dt p1))))
                           eshift of
                      (p2, hybrid_energy) \<Rightarrow>
                        (case py_cexp
                                (cfl_mul (cfl_of (Fin (- dt p2)))
                                   (cfl_sub
                                      (cfl_mul (cfl_of (Fin (1 / 2)))
                                         (cfl_add hybrid_energy (w_hybrid_energy w2)))
                                      eshift)) of
                           Inl e \<Rightarrow> Raised (p2, w2) e
                         | Inr ex \<Rightarrow>
                             Returned (p2, w2)
                               (cfb, xmxbar, ot_new, hybrid_energy,
                                cfl_mul (cfl_of (mf_const_fac p2)) ex))))))"

text \<open>
  The second part splits the importance function into modulus and phase (the phase is
  not used by the source) and updates the walker.
\<close>

definition propagate_walker_phaseless ::
  "('d, 'b, 'v) collaborators \<Rightarrow> cfl list \<Rightarrow> cfl \<Rightarrow> continuous \<times> 'd pwalker \<Rightarrow>
   (continuous \<times> 'd pwalker, unit) outcome" where
  "propagate_walker_phaseless ext xi eshift s =
     (case phaseless_importance ext xi eshift s of
        Raised s1 e \<Rightarrow> Raised s1 e
      | Returned (p2, w2) (cfb, xmxbar, ot_new, hybrid_energy, importance_function) \<Rightarrow>
          (let magn = fst (py_polar importance_function);
               w3 = w2\<lparr>w_hybrid_energy := hybrid_energy\<rparr>
           in if \<not> isinf magn then
                (let dtheta = snd (cfl_sub
                                    (cfl_mul (cfl_of (Fin (- dt p2))) hybrid_energy) cfb)
                 in case py_cos dtheta of
                      Inl e \<Rightarrow> Raised (p2, w3) e
                    | Inr c \<Rightarrow>
                        (let cosine_fac = max0 c;
                             w4 = w3\<lparr>w_weight := fl_mul (w_weight w3) (fl_mul magn cosine_fac),
                                     w_ot := ot_new\<rparr>;
                             wfac = (if fl_gt magn (Fin (1 / 10 ^ 16))
                                     then (cfl_div importance_function (cfl_of magn),
                                           cfl_of cosine_fac)
                                     else ((Fin 0, Fin 0), (Fin 0, Fin 0)))
                         in Returned
                              (p2, w4\<lparr>w_field_configs :=
                                       map_option (\<lambda>fc. fc @ [(xmxbar, wfac)])
                                         (w_field_configs w4)\<rparr>) ()))
              else Returned (p2, w3\<lparr>w_ot := ot_new, w_weight := Fin 0\<rparr>) ()))"

text \<open>\<^verbatim>\<open>propagate_walker_free(walker, system, trial, eshift)\<close>.\<close>

definition propagate_walker_free ::
  "('d, 'b, 'v) collaborators \<Rightarrow> cfl list \<Rightarrow> cfl \<Rightarrow> continuous \<times> 'd pwalker \<Rightarrow>
   (continuous \<times> 'd pwalker, unit) outcome" where
  "propagate_walker_free ext xi eshift s =
     (case s of (p, w) \<Rightarrow>
      (case two_body_propagator ext xi (p, w\<lparr>w_det := kinetic_real ext (w_det w)\<rparr>) of
         Raised s1 e \<Rightarrow> Raised s1 e
       | Returned (p1, w1) (cmf, cfb, xmxbar) \<Rightarrow>
           (let d1 = inverse_overlap ext (kinetic_real ext (w_det w1));
                w2 = w1\<lparr>w_det := greens_function ext d1, w_ot := calc_otrial ext d1\<rparr>
            in case py_cexp (cfl_add cmf (cfl_mul (cfl_of (Fin (dt p1))) eshift)) of
                 Inl e \<Rightarrow> Raised (p1, w2) e
               | Inr ex \<Rightarrow>
                   (case py_polar ex of
                      (magn, dtheta) \<Rightarrow>
                        (let w3 = w2\<lparr>w_weight := fl_mul (w_weight w2) magn\<rparr>
                         in case py_cexp (cfl_mul (Fin 0, Fin 1) (cfl_of dtheta)) of
                              Inl e \<Rightarrow> Raised (p1, w3) e
                            | Inr ph \<Rightarrow>
                                Returned (p1, w3\<lparr>w_phase := cfl_mul (w_phase w3) ph\<rparr>) ())))))"

text \<open>
  \<^verbatim>\<open>self.propagate_walker\<close>, as \<^verbatim>\<open>__init__\<close> binds it, and a run of calls on one propagator,
  each with its walker, its sample and its energy shift, up to the first call that raises.
\<close>

definition propagate_walker ::
  "('d, 'b, 'v) collaborators \<Rightarrow> cfl list \<Rightarrow> cfl \<Rightarrow> continuous \<times> 'd pwalker \<Rightarrow>
   (continuous \<times> 'd pwalker, unit) outcome" where
  "propagate_walker ext xi eshift s =
     (if free_projection (fst s) then propagate_walker_free ext xi eshift s
      else propagate_walker_phaseless ext xi eshift s)"

fun propagate_many ::
  "('d, 'b, 'v) collaborators \<Rightarrow> continuous \<Rightarrow> ('d pwalker \<times> cfl list \<times> cfl) list \<Rightarrow> continuous" where
  "propagate_many ext p [] = p"
| "propagate_many ext p ((w, xi, eshift) # rest) =
     (case propagate_walker ext xi eshift (p, w) of
        Raised s e \<Rightarrow> fst s
      | Returned s u \<Rightarrow> propagate_many ext (fst s) rest)"

subsection \<open>Concrete collaborators\<close>

text \<open>
  A system with two auxiliary fields whose collaborators do nothing to the determinant;
  its force bias has two components of magnitude 2 and 3. \<open>prop0\<close> is the propagator
  that \<^verbatim>\<open>__init__\<close> makes for it with time step 2 and no options, \<open>walker0\<close> a walker
  of weight 1, \<open>xi0\<close> a sample of the two fields.
\<close>

definition ext0 :: "(unit, unit, unit) collaborators" where
  "ext0 = \<lparr>nfields = 2, ndown = 1, mf_core = (Fin 0, Fin 0),
           mf_shift = [(Fin 0, Fin 0), (Fin 0, Fin 0)],
           kinetic_real = (\<lambda>d. d),
           construct_force_bias = (\<lambda>d. [(Fin 2, Fin 0), (Fin 0, Fin 3)]),
           construct_VHS = (\<lambda>x. ()),
           up_block = (\<lambda>d. ()), set_up_block = (\<lambda>d b. d),
           down_block = (\<lambda>d. ()), set_down_block = (\<lambda>d b. d),
           vhs_dot = (\<lambda>v b. b), block_div = (\<lambda>b n. b), block_add = (\<lambda>a b. a),
           inverse_overlap = (\<lambda>d. d), greens_function = (\<lambda>d. d),
           calc_otrial = (\<lambda>d. (Fin 1, Fin 0))\<rparr>"

definition walker0 :: "unit pwalker" where
  "walker0 = \<lparr>w_det = (), w_weight = Fin 1, w_phase = (Fin 1, Fin 0), w_ot = (Fin 1, Fin 0),
              w_hybrid_energy = (Fin 0, Fin 0), w_field_configs = Some []\<rparr>"

definition prop0 :: continuous where
  "prop0 = \<lparr>free_projection = False, force_bias = True, exp_nmax = 6, dt = 2, sqrt_dt = sqrt 2,
            mf_const_fac = Fin 1, nfb_trig = 0, nhe_trig = 0, ebound = Fin 1,
            mean_local_energy = 0, verbose = False\<rparr>"

definition xi0 :: "cfl list" where
  "xi0 = [(Fin 0, Fin 0), (Fin 0, Fin 0)]"

text \<open>
  The same system with a walker whose overlap with the trial wavefunction has become
  \<^verbatim>\<open>nan\<close> (its determinant holds \<^verbatim>\<open>inf - inf\<close>), and the propagator with the force bias
  switched off.
\<close>

definition ext_nan :: "(unit, unit, unit) collaborators" where
  "ext_nan = ext0\<lparr>calc_otrial := (\<lambda>d. (NaN, NaN))\<rparr>"

definition prop_nofb :: continuous where
  "prop_nofb = prop0\<lparr>force_bias := False\<rparr>"

text \<open>A walker of weight \<open>3/2\<close> and phase \<open>i\<close>.\<close>

definition walker1 :: "unit pwalker" where
  "walker1 = walker0\<lparr>w_weight := Fin (3 / 2), w_phase := (Fin 0, Fin 1)\<rparr>"

chapter \<open>Properties\<close>

section \<open>Basic facts about arrays\<close>

lemma nrows_build [simp]: "nrows (build n m f) = n"
  by (simp add: build_def)

lemma ncols_build [simp]: "ncols (build n m f) = m"
  by (simp add: build_def)

lemma entry_build [simp]: "i < n \<Longrightarrow> j < m \<Longrightarrow> entry (build n m f) i j = f i j"
  by (simp add: build_def entry_def)

lemma build_cong: "(\<And>i j. i < n \<Longrightarrow> j < m \<Longrightarrow> f i j = g i j) \<Longrightarrow> build n m f = build n m g"
  by (simp add: build_def)

lemma build_eq_iff: "build n m f = build n m g \<longleftrightarrow> (\<forall>i<n. \<forall>j<m. f i j = g i j)"
proof
  assume eq: "build n m f = build n m g"
  show "\<forall>i<n. \<forall>j<m. f i j = g i j"
  proof (intro allI impI)
    fix i j assume "i < n" "j < m"
    then have "f i j = entry (build n m f) i j" by simp
    also have "\<dots> = entry (build n m g) i j" by (simp add: eq)
    also have "\<dots> = g i j" using \<open>i < n\<close> \<open>j < m\<close> by simp
    finally show "f i j = g i j" .
  qed
next
  assume "\<forall>i<n. \<forall>j<m. f i j = g i j"
  then show "build n m f = build n m g" by (intro build_cong) simp
qed

lemma wf_build [simp]: "wf_nd (build n m f)"
  by (simp add: wf_nd_def build_def list_all_iff)

lemma wf_nd_eq_build:
  assumes "wf_nd A"
  shows "A = build (nrows A) (ncols A) (entry A)"
proof -
  have len: "length (rows A) = nrows A" and row: "\<And>r. r \<in> set (rows A) \<Longrightarrow> length r = ncols A"
    using assms by (auto simp: wf_nd_def list_all_iff)
  have "rows A = map (\<lambda>i. map (entry A i) [0..<ncols A]) [0..<nrows A]"
  proof (rule nth_equalityI)
    show "length (rows A) = length (map (\<lambda>i. map (entry A i) [0..<ncols A]) [0..<nrows A])"
      by (simp add: len)
  next
    fix i assume i: "i < length (rows A)"
    then have l: "length (rows A ! i) = ncols A" by (simp add: row)
    have "rows A ! i = map (entry A i) [0..<ncols A]"
      by (rule nth_equalityI) (simp_all add: l entry_def)
    then show "rows A ! i = map (\<lambda>i. map (entry A i) [0..<ncols A]) [0..<nrows A] ! i"
      using i by (simp add: len)
  qed
  then show ?thesis
    by (cases A) (simp add: build_def)
qed

lemma nrows_mmul [simp]: "nrows (mmul A B) = nrows A"
  by (simp add: mmul_def)

lemma ncols_mmul [simp]: "ncols (mmul A B) = ncols B"
  by (simp add: mmul_def)

lemma entry_mmul:
  "i < nrows A \<Longrightarrow> j < ncols B \<Longrightarrow> entry (mmul A B) i j = (\<Sum>k<ncols A. entry A i k * entry B k j)"
  by (simp add: mmul_def interv_sum_list_conv_sum_set_nat atLeast0LessThan)

lemma nrows_transpose [simp]: "nrows (transpose_nd A) = ncols A"
  by (simp add: transpose_nd_def)

lemma ncols_transpose [simp]: "ncols (transpose_nd A) = nrows A"
  by (simp add: transpose_nd_def)

lemma entry_transpose [simp]:
  "i < ncols A \<Longrightarrow> j < nrows A \<Longrightarrow> entry (transpose_nd A) i j = entry A j i"
  by (simp add: transpose_nd_def)

lemma nrows_conj [simp]: "nrows (conj_nd A) = nrows A"
  by (simp add: conj_nd_def)

lemma ncols_conj [simp]: "ncols (conj_nd A) = ncols A"
  by (simp add: conj_nd_def)

lemma entry_conj [simp]:
  "i < nrows A \<Longrightarrow> j < ncols A \<Longrightarrow> entry (conj_nd A) i j = cnj (entry A i j)"
  by (simp add: conj_nd_def)

lemma nrows_identity [simp]: "nrows (identity n) = n"
  by (simp add: identity_def)

lemma ncols_identity [simp]: "ncols (identity n) = n"
  by (simp add: identity_def)

lemma entry_identity [simp]:
  "i < n \<Longrightarrow> j < n \<Longrightarrow> entry (identity n) i j = (if i = j then 1 else 0)"
  by (simp add: identity_def)

text \<open>Two arrays that agree on their shape and on every entry in range have the same products.\<close>

lemma mmul_eqI:
  assumes "nrows A = nrows A'" "ncols A = ncols A'" "ncols B = ncols B'"
    and "\<And>i k. i < nrows A \<Longrightarrow> k < ncols A \<Longrightarrow> entry A i k = entry A' i k"
    and "\<And>k j. k < ncols A \<Longrightarrow> j < ncols B \<Longrightarrow> entry B k j = entry B' k j"
  shows "mmul A B = mmul A' B'"
proof -
  have "build (nrows A) (ncols B) (\<lambda>i j. \<Sum>k\<leftarrow>[0..<ncols A]. entry A i k * entry B k j)
      = build (nrows A) (ncols B) (\<lambda>i j. \<Sum>k\<leftarrow>[0..<ncols A]. entry A' i k * entry B' k j)"
  proof (rule build_cong)
    fix i j assume "i < nrows A" "j < ncols B"
    then have "map (\<lambda>k. entry A i k * entry B k j) [0..<ncols A]
             = map (\<lambda>k. entry A' i k * entry B' k j) [0..<ncols A]"
      by (simp add: assms(4,5))
    then show "(\<Sum>k\<leftarrow>[0..<ncols A]. entry A i k * entry B k j)
             = (\<Sum>k\<leftarrow>[0..<ncols A]. entry A' i k * entry B' k j)"
      by (rule arg_cong)
  qed
  then show ?thesis
    using assms(1-3) by (simp add: mmul_def)
qed

lemma mmul_assoc:
  assumes "ncols A = nrows B" "ncols B = nrows C"
  shows "mmul (mmul A B) C = mmul A (mmul B C)"
proof -
  have "build (nrows A) (ncols C) (entry (mmul (mmul A B) C))
      = build (nrows A) (ncols C) (entry (mmul A (mmul B C)))"
  proof (rule build_cong)
    fix i j assume i: "i < nrows A" and j: "j < ncols C"
    have "entry (mmul (mmul A B) C) i j = (\<Sum>l<ncols B. (\<Sum>k<ncols A. entry A i k * entry B k l) * entry C l j)"
      using i j by (simp add: entry_mmul)
    also have "\<dots> = (\<Sum>l<ncols B. \<Sum>k<ncols A. entry A i k * (entry B k l * entry C l j))"
      by (simp add: sum_distrib_right mult.assoc)
    also have "\<dots> = (\<Sum>k<ncols A. \<Sum>l<ncols B. entry A i k * (entry B k l * entry C l j))"
      by (rule sum.swap)
    also have "\<dots> = (\<Sum>k<ncols A. entry A i k * entry (mmul B C) k j)"
      using j assms by (simp add: entry_mmul sum_distrib_left)
    also have "\<dots> = entry (mmul A (mmul B C)) i j"
      using i j by (simp add: entry_mmul)
    finally show "entry (mmul (mmul A B) C) i j = entry (mmul A (mmul B C)) i j" .
  qed
  moreover have "mmul (mmul A B) C = build (nrows A) (ncols C) (entry (mmul (mmul A B) C))"
    using wf_nd_eq_build [of "mmul (mmul A B) C"] by (simp add: mmul_def)
  moreover have "mmul A (mmul B C) = build (nrows A) (ncols C) (entry (mmul A (mmul B C)))"
    using wf_nd_eq_build [of "mmul A (mmul B C)"] by (simp add: mmul_def)
  ultimately show ?thesis by simp
qed

lemma entry_mmul_identity_right:
  assumes "i < nrows A" "j < ncols A"
  shows "entry (mmul A (identity (ncols A))) i j = entry A i j"
proof -
  have "entry (mmul A (identity (ncols A))) i j = (\<Sum>k<ncols A. entry A i k * (if k = j then 1 else 0))"
    using assms by (simp add: entry_mmul)
  also have "\<dots> = (\<Sum>k<ncols A. if k = j then entry A i k else 0)"
    by (intro sum.cong refl) simp
  also have "\<dots> = entry A i j"
    using assms by (simp add: sum.delta)
  finally show ?thesis .
qed

lemma entry_mmul_identity_left:
  assumes "i < nrows A" "j < ncols A"
  shows "entry (mmul (identity (nrows A)) A) i j = entry A i j"
proof -
  have "entry (mmul (identity (nrows A)) A) i j = (\<Sum>k<nrows A. (if i = k then 1 else 0) * entry A k j)"
    using assms by (simp add: entry_mmul)
  also have "\<dots> = (\<Sum>k<nrows A. if k = i then entry A k j else 0)"
    by (intro sum.cong refl) simp
  also have "\<dots> = entry A i j"
    using assms by (simp add: sum.delta)
  finally show ?thesis .
qed

lemma is_inverse_shape:
  assumes "is_inverse S X"
  shows "ncols S = nrows S" "nrows X = nrows S" "ncols X = nrows S"
proof -
  from assms have a: "ncols S = nrows X" "mmul S X = identity (nrows S)"
    and b: "ncols X = nrows S" "mmul X S = identity (nrows S)"
    by (auto simp: is_inverse_def dot_def split: if_splits)
  from b(2) have "nrows (mmul X S) = nrows S" by simp
  then show "nrows X = nrows S" by simp
  with a(1) show "ncols S = nrows S" by simp
  from b(1) show "ncols X = nrows S" .
qed

lemma is_inverse_products:
  assumes "is_inverse S X"
  shows "mmul S X = identity (nrows S)" "mmul X S = identity (nrows S)"
  using assms by (auto simp: is_inverse_def dot_def split: if_splits)

lemma is_inverse_unique:
  assumes X: "is_inverse S X" and Y: "is_inverse S Y"
    and i: "i < nrows S" and j: "j < nrows S"
  shows "entry Y i j = entry X i j"
proof -
  note sx = is_inverse_shape [OF X] and sy = is_inverse_shape [OF Y]
  have "entry Y i j = entry (mmul Y (identity (ncols Y))) i j"
    using entry_mmul_identity_right [of i Y j] i j sy by simp
  also have "\<dots> = entry (mmul Y (mmul S X)) i j"
    using sy by (simp add: is_inverse_products [OF X])
  also have "\<dots> = entry (mmul (mmul Y S) X) i j"
    using sx sy by (simp add: mmul_assoc)
  also have "\<dots> = entry (mmul (identity (nrows X)) X) i j"
    using sx by (simp add: is_inverse_products [OF Y])
  also have "\<dots> = entry X i j"
    using entry_mmul_identity_left [of i X j] i j sx by simp
  finally show ?thesis .
qed

lemma gab_value:
  assumes S: "dot (transpose_nd (conj_nd A)) B = Inr S"
    and Y: "linv S = Inr Y" "nrows Y = ncols A" "ncols Y = ncols A" and sq: "ncols B = ncols A"
  shows "gab linv A B = Inr (transpose_nd (mmul B (mmul Y (transpose_nd (conj_nd A)))))"
  using assms by (simp add: gab_def dot_def)

lemma dot_Inr_iff: "dot A B = Inr C \<longleftrightarrow> ncols A = nrows B \<and> C = mmul A B"
  by (auto simp: dot_def)

text \<open>
  Claim C1. For arrays \<open>A\<close> and \<open>B\<close> whose overlap \<open>S = conj(A)\<^sup>T B\<close> exists and has a
  two-sided inverse \<open>X\<close>, and a library routine that returns an inverse of \<open>S\<close>,
  \<^verbatim>\<open>gab(A, B)\<close> returns the transpose of \<open>B X conj(A)\<^sup>T\<close>.
\<close>

theorem gab_formula:
  assumes S: "dot (transpose_nd (conj_nd A)) B = Inr S"
    and X: "is_inverse S X"
    and Y: "linv S = Inr Y" "is_inverse S Y"
  shows "gab linv A B = Inr (transpose_nd (mmul B (mmul X (transpose_nd (conj_nd A)))))"
proof -
  from S have Sd: "S = mmul (transpose_nd (conj_nd A)) B" and rows: "nrows A = nrows B"
    by (simp_all add: dot_Inr_iff)
  have nS: "nrows S = ncols A" "ncols S = ncols B" by (simp_all add: Sd)
  note sx = is_inverse_shape [OF X] and sy = is_inverse_shape [OF Y(2)]
  have sq: "ncols B = ncols A" using sx nS by simp
  have "gab linv A B = Inr (transpose_nd (mmul B (mmul Y (transpose_nd (conj_nd A)))))"
    using S Y(1) sy nS sq by (intro gab_value) simp_all
  moreover have "mmul Y (transpose_nd (conj_nd A)) = mmul X (transpose_nd (conj_nd A))"
    using sx sy nS by (intro mmul_eqI) (simp_all add: is_inverse_unique [OF X Y(2)])
  ultimately show ?thesis by simp
qed

lemma transpose_mmul:
  assumes "ncols B = nrows A"
  shows "mmul (transpose_nd A) (transpose_nd B) = transpose_nd (mmul B A)"
proof -
  have "build (ncols A) (nrows B) (\<lambda>i j. \<Sum>k\<leftarrow>[0..<nrows A]. entry (transpose_nd A) i k * entry (transpose_nd B) k j)
      = build (ncols A) (nrows B) (\<lambda>i j. entry (mmul B A) j i)"
  proof (rule build_cong)
    fix i j assume i: "i < ncols A" and j: "j < nrows B"
    have "(\<Sum>k\<leftarrow>[0..<nrows A]. entry (transpose_nd A) i k * entry (transpose_nd B) k j)
        = (\<Sum>k<nrows A. entry (transpose_nd A) i k * entry (transpose_nd B) k j)"
      by (simp add: interv_sum_list_conv_sum_set_nat atLeast0LessThan)
    also have "\<dots> = (\<Sum>k<nrows A. entry B j k * entry A k i)"
      using i j assms by (intro sum.cong refl) (simp add: mult.commute)
    also have "\<dots> = entry (mmul B A) j i"
      using i j assms by (simp add: entry_mmul)
    finally show "(\<Sum>k\<leftarrow>[0..<nrows A]. entry (transpose_nd A) i k * entry (transpose_nd B) k j)
        = entry (mmul B A) j i" .
  qed
  then show ?thesis
    by (simp add: mmul_def [of "transpose_nd A"] transpose_nd_def [of "mmul B A"])
qed

lemma mmul_identity_left:
  assumes "wf_nd A" "n = nrows A"
  shows "mmul (identity n) A = A"
proof -
  have "mmul (identity n) A = build (nrows A) (ncols A) (entry (mmul (identity (nrows A)) A))"
    using wf_nd_eq_build [of "mmul (identity n) A"] assms by (simp add: mmul_def)
  also have "\<dots> = build (nrows A) (ncols A) (entry A)"
    by (rule build_cong) (simp add: entry_mmul_identity_left)
  also have "\<dots> = A"
    using wf_nd_eq_build [OF assms(1)] by simp
  finally show ?thesis .
qed

lemma wf_mmul [simp]: "wf_nd (mmul A B)"
  by (simp add: mmul_def)

text \<open>
  Claim C10. Whenever the overlap \<open>S = conj(A)\<^sup>T B\<close> exists and the library routine returns
  an inverse of it, \<^verbatim>\<open>gab(A, B)\<close> returns an array \<open>G\<close> with \<open>G G = G\<close>, for any pair
  \<open>A\<close>, \<open>B\<close> and not only for \<open>A = B\<close>.
\<close>

theorem gab_idempotent:
  assumes S: "dot (transpose_nd (conj_nd A)) B = Inr S"
    and Y: "linv S = Inr Y" "is_inverse S Y"
  shows "\<exists>G. gab linv A B = Inr G \<and> dot G G = Inr G"
proof -
  define AH where "AH = transpose_nd (conj_nd A)"
  define P where "P = mmul B (mmul Y AH)"
  from S have Sd: "S = mmul AH B" and rows: "nrows A = nrows B"
    by (simp_all add: dot_Inr_iff AH_def)
  have nS: "nrows S = ncols A" "ncols S = ncols B" by (simp_all add: Sd AH_def)
  note sy = is_inverse_shape [OF Y(2)]
  have sq: "ncols B = ncols A" using sy nS by simp
  have nAH: "nrows AH = ncols A" "ncols AH = nrows A" by (simp_all add: AH_def)
  have G: "gab linv A B = Inr (transpose_nd P)"
    unfolding P_def AH_def using S Y(1) sy nS sq by (intro gab_value) simp_all
  have "mmul P P = mmul B (mmul (mmul Y AH) (mmul B (mmul Y AH)))"
    unfolding P_def using sy nS nAH sq rows by (simp add: mmul_assoc)
  also have "mmul (mmul Y AH) (mmul B (mmul Y AH)) = mmul Y (mmul AH (mmul B (mmul Y AH)))"
    using sy nS nAH sq rows by (simp add: mmul_assoc)
  also have "mmul AH (mmul B (mmul Y AH)) = mmul S (mmul Y AH)"
    using sy nS nAH sq rows by (simp add: mmul_assoc Sd)
  also have "mmul Y (mmul S (mmul Y AH)) = mmul (mmul Y S) (mmul Y AH)"
    using sy nS nAH sq rows by (simp add: mmul_assoc)
  also have "\<dots> = mmul Y AH"
    using sy nS by (simp add: is_inverse_products [OF Y(2)] mmul_identity_left)
  finally have PP: "mmul P P = P" by (simp add: P_def)
  have "dot (transpose_nd P) (transpose_nd P) = Inr (transpose_nd P)"
    using rows nAH by (simp add: dot_def transpose_mmul PP) (simp add: P_def)
  with G show ?thesis by blast
qed

subsection \<open>The claims at concrete determinants\<close>

lemma dot_AB0: "dot (transpose_nd (conj_nd A0)) B0 = Inr S0"
  by code_simp

lemma inv_exact_S0: "inv_exact S0 = Inr X0"
  by code_simp

lemma is_inverse_S0: "is_inverse S0 X0"
  by code_simp

theorem gab_formula_witness:
  "dot (transpose_nd (conj_nd A0)) B0 = Inr S0 \<and> is_inverse S0 X0 \<and> inv_exact S0 = Inr X0 \<and>
   gab inv_exact A0 B0 = Inr (transpose_nd (mmul B0 (mmul X0 (transpose_nd (conj_nd A0)))))"
  using gab_formula [of A0 B0 S0 X0 inv_exact X0] dot_AB0 is_inverse_S0 inv_exact_S0
  by simp

theorem gab_idempotent_witness:
  "dot (transpose_nd (conj_nd A0)) B0 = Inr S0 \<and> inv_exact S0 = Inr X0 \<and> is_inverse S0 X0 \<and>
   (\<exists>G. gab inv_exact A0 B0 = Inr G \<and> dot G G = Inr G)"
  using gab_idempotent [of A0 B0 S0 inv_exact X0] dot_AB0 is_inverse_S0 inv_exact_S0
  by simp

subsection \<open>Orthonormal determinants\<close>

lemma wf_identity [simp]: "wf_nd (identity n)"
  by (simp add: identity_def)

lemma wf_transpose [simp]: "wf_nd (transpose_nd A)"
  by (simp add: transpose_nd_def)

lemma wf_conj [simp]: "wf_nd (conj_nd A)"
  by (simp add: conj_nd_def)

lemma transpose_transpose:
  assumes "wf_nd A"
  shows "transpose_nd (transpose_nd A) = A"
proof -
  have "transpose_nd (transpose_nd A) = build (nrows A) (ncols A) (\<lambda>i j. entry (transpose_nd A) j i)"
    by (simp add: transpose_nd_def [of "transpose_nd A"])
  also have "\<dots> = build (nrows A) (ncols A) (entry A)"
    by (rule build_cong) simp
  also have "\<dots> = A"
    using wf_nd_eq_build [OF assms] by simp
  finally show ?thesis .
qed

lemma is_inverse_identity: "is_inverse (identity n) (identity n)"
  by (simp add: is_inverse_def dot_def mmul_identity_left)

text \<open>
  Claim C5, as amended. For \<open>A\<close> with orthonormal columns (\<open>conj(A)\<^sup>T A = I\<close>) and a library
  routine that returns an inverse of the identity, \<^verbatim>\<open>gab(A, A)\<close> is the projector
  \<open>conj(A) A\<^sup>T\<close>, the transpose of \<open>A conj(A)\<^sup>T\<close>.
\<close>

theorem gab_orthonormal:
  assumes orth: "dot (transpose_nd (conj_nd A)) A = Inr (identity (ncols A))"
    and Y: "linv (identity (ncols A)) = Inr Y" "is_inverse (identity (ncols A)) Y"
  shows "gab linv A A = Inr (mmul (conj_nd A) (transpose_nd A))"
proof -
  define AH where "AH = transpose_nd (conj_nd A)"
  define n where "n = ncols A"
  have sy: "nrows Y = n" "ncols Y = n"
    using is_inverse_shape [OF Y(2)] by (simp_all add: n_def)
  have "gab linv A A = Inr (transpose_nd (mmul A (mmul Y AH)))"
    unfolding AH_def using orth Y(1) sy by (intro gab_value) (simp_all add: n_def)
  moreover have "mmul Y AH = mmul (identity n) AH"
    using sy is_inverse_unique [OF is_inverse_identity Y(2)]
    by (intro mmul_eqI) (simp_all add: n_def)
  moreover have "mmul (identity n) AH = AH"
    by (rule mmul_identity_left) (simp_all add: AH_def n_def)
  moreover have "transpose_nd (mmul A AH) = mmul (transpose_nd AH) (transpose_nd A)"
    by (rule transpose_mmul [symmetric]) (simp add: AH_def)
  moreover have "transpose_nd AH = conj_nd A"
    unfolding AH_def by (rule transpose_transpose) simp
  ultimately show ?thesis by simp
qed

subsection \<open>Failures of the Green's function\<close>

text \<open>
  Claim C6, as amended. \<^verbatim>\<open>gab\<close> makes no check of the overlap matrix \<open>S\<close>. When the
  library inverse raises, that exception leaves \<^verbatim>\<open>gab\<close>; when it returns an inverse of
  \<open>S\<close>, \<^verbatim>\<open>gab\<close> returns a value, whatever the conditioning of \<open>S\<close>.
\<close>

theorem gab_failure:
  assumes S: "dot (transpose_nd (conj_nd A)) B = Inr S"
  shows "(linv S = Inl e \<longrightarrow> gab linv A B = Inl e) \<and>
         (linv S = Inr Y \<and> is_inverse S Y \<longrightarrow> (\<exists>G. gab linv A B = Inr G))"
proof (intro conjI impI)
  assume "linv S = Inl e"
  with S show "gab linv A B = Inl e" by (simp add: gab_def)
next
  assume "linv S = Inr Y \<and> is_inverse S Y"
  then have Y: "linv S = Inr Y" and iY: "is_inverse S Y" by simp_all
  from S have Sd: "S = mmul (transpose_nd (conj_nd A)) B"
    by (simp add: dot_Inr_iff)
  have nS: "nrows S = ncols A" "ncols S = ncols B" by (simp_all add: Sd)
  have sy: "ncols S = nrows S" "nrows Y = nrows S" "ncols Y = nrows S"
    using is_inverse_shape [OF iY] by simp_all
  have "gab linv A B = Inr (transpose_nd (mmul B (mmul Y (transpose_nd (conj_nd A)))))"
    using S Y sy nS by (intro gab_value) simp_all
  then show "\<exists>G. gab linv A B = Inr G" by blast
qed

lemma upt_0_2: "[0..<2] = [0, 1]"
  by (simp add: upt_rec numeral_2_eq_2)

lemma upt_Suc_0_2: "[Suc 0..<2] = [1]"
  by (simp add: upt_rec numeral_2_eq_2)

lemma gauss_jordan_2:
  "gauss_jordan 2 c M =
     (case find_pivot c M of
        None \<Rightarrow> None
      | Some r \<Rightarrow>
          (let M1 = M[c := M ! r, r := M ! c];
               p = map (\<lambda>x. x / (M1 ! c ! c)) (M1 ! c);
               M2 = map (\<lambda>i. if i = c then p else row_sub (M1 ! i ! c) p (M1 ! i))
                        [0..<length M1]
           in gauss_jordan (Suc 0) (Suc c) M2))"
  by (simp add: numeral_2_eq_2)

lemmas nd_eval =
  dot_def mmul_def transpose_nd_def conj_nd_def identity_def build_def entry_def
  inv_exact_def gauss_jordan_2 find_pivot_def row_sub_def Let_def upt_0_2 upt_Suc_0_2

lemma gab_eval:
  assumes "dot (transpose_nd (conj_nd A)) B = Inr S" "linv S = Inr X"
    "dot X (transpose_nd (conj_nd A)) = Inr Y" "dot B Y = Inr Z" "transpose_nd Z = G"
  shows "gab linv A B = Inr G"
  using assms by (simp add: gab_def)

lemma dot_A2_B2: "dot (transpose_nd (conj_nd A2)) B2 = Inr B2"
  by (simp add: nd_eval A2_def B2_def)

lemma inv_exact_B2:
  "inv_exact B2 = Inr (NDArray 2 2 [[2 ^ 50 + 1, - (2 ^ 50)], [- (2 ^ 50), 2 ^ 50]])"
  by (simp add: nd_eval B2_def)

lemma is_inverse_B2:
  "is_inverse B2 (NDArray 2 2 [[2 ^ 50 + 1, - (2 ^ 50)], [- (2 ^ 50), 2 ^ 50]])"
  by (simp add: is_inverse_def nd_eval B2_def)

lemma gab_A2_B2: "gab inv_exact A2 B2 = Inr (identity 2)"
proof (rule gab_eval [where linv = inv_exact, OF dot_A2_B2 inv_exact_B2])
  show "dot (NDArray 2 2 [[2 ^ 50 + 1, - (2 ^ 50)], [- (2 ^ 50), 2 ^ 50]])
          (transpose_nd (conj_nd A2))
      = Inr (NDArray 2 2 [[2 ^ 50 + 1, - (2 ^ 50)], [- (2 ^ 50), 2 ^ 50]])"
    by (simp add: nd_eval A2_def)
  show "dot B2 (NDArray 2 2 [[2 ^ 50 + 1, - (2 ^ 50)], [- (2 ^ 50), 2 ^ 50]]) = Inr (identity 2)"
    by (simp add: nd_eval B2_def)
  show "transpose_nd (identity 2) = identity 2"
    by (simp add: nd_eval)
qed

lemma dot_A2_ones:
  "dot (transpose_nd (conj_nd A2)) (NDArray 2 2 [[1, 1], [1, 1]]) = Inr (NDArray 2 2 [[1, 1], [1, 1]])"
  by (simp add: nd_eval A2_def)

lemma inv_exact_singular:
  "inv_exact (NDArray 2 2 [[1, 1], [1, 1]]) = Inl LinAlgError"
  by (simp add: nd_eval)

theorem gab_failure_witness:
  "dot (transpose_nd (conj_nd A2)) B2 = Inr B2 \<and>
   is_inverse B2 (NDArray 2 2 [[2 ^ 50 + 1, - (2 ^ 50)], [- (2 ^ 50), 2 ^ 50]]) \<and>
   (\<exists>G. gab inv_exact A2 B2 = Inr G) \<and>
   dot (transpose_nd (conj_nd A2)) (NDArray 2 2 [[1, 1], [1, 1]]) = Inr (NDArray 2 2 [[1, 1], [1, 1]]) \<and>
   gab inv_exact A2 (NDArray 2 2 [[1, 1], [1, 1]]) = Inl LinAlgError"
  using gab_failure [OF dot_A2_B2, of inv_exact LinAlgError
      "NDArray 2 2 [[2 ^ 50 + 1, - (2 ^ 50)], [- (2 ^ 50), 2 ^ 50]]"]
    gab_failure [OF dot_A2_ones, of inv_exact LinAlgError]
    dot_A2_B2 inv_exact_B2 is_inverse_B2 inv_exact_singular dot_A2_ones
  by simp

text \<open>
  Claim C6, as stated, fails: the overlap matrix of \<open>A2\<close> and \<open>B2\<close> has determinant
  \<open>2\<^sup>-\<^sup>5\<^sup>0\<close> and an inverse with entries of size \<open>2\<^sup>5\<^sup>0\<close>, and \<^verbatim>\<open>gab\<close> returns a value
  without any failure.
\<close>

theorem gab_failure_counterexample:
  "dot (transpose_nd (conj_nd A2)) B2 = Inr B2 \<and>
   entry B2 0 0 * entry B2 1 1 - entry B2 0 1 * entry B2 1 0 = 1 / 2 ^ 50 \<and>
   gab inv_exact A2 B2 = Inr (identity 2)"
  using dot_A2_B2 gab_A2_B2 by (simp add: B2_def entry_def)

subsection \<open>Back-propagated energy of a single walker\<close>

text \<open>
  Claim C9. For a single walker of positive weight, taken as the current, the
  reference-time and the back-propagated walker at once, \<^verbatim>\<open>back_propagated_energy\<close>
  returns what \<^verbatim>\<open>local_energy\<close> returns on the Green's functions of its own determinants
  (total, kinetic and potential energy): the weight cancels against the denominator.
\<close>

theorem back_propagated_energy_single:
  assumes "0 < weight w"
  shows "back_propagated_energy linv sys [w] [w] [w] =
     (case gab linv (fst (phi w)) (fst (phi w)) of
        Inl e \<Rightarrow> Inl e
      | Inr G0 \<Rightarrow>
          (case gab linv (snd (phi w)) (snd (phi w)) of
             Inl e \<Rightarrow> Inl e
           | Inr G1 \<Rightarrow> local_energy sys (G0, G1)))"
proof (cases "gab linv (fst (phi w)) (fst (phi w))")
  case (Inl e)
  then show ?thesis by (simp add: back_propagated_energy_def)
next
  case G0: (Inr G0)
  show ?thesis
  proof (cases "gab linv (snd (phi w)) (snd (phi w))")
    case (Inl e)
    with G0 show ?thesis by (simp add: back_propagated_energy_def)
  next
    case G1: (Inr G1)
    show ?thesis
    proof (cases "local_energy sys (G0, G1)")
      case (Inl e)
      with G0 G1 show ?thesis by (simp add: back_propagated_energy_def)
    next
      case (Inr ekp)
      obtain e k p where ekp: "ekp = (e, k, p)" by (cases ekp)
      from assms have "weight w \<noteq> 0" by simp
      with G0 G1 Inr ekp show ?thesis by (simp add: back_propagated_energy_def)
    qed
  qed
qed

lemma gauss_jordan_1: "gauss_jordan 1 c M = gauss_jordan (Suc 0) c M"
  by simp

lemma upt_0_1: "[0..<1] = [0]"
  by (simp add: upt_rec)

lemma gab_A1_A1:
  "gab inv_exact A1 A1 = Inr (NDArray 2 2 [[9 / 25, 12 * \<i> / 25], [- (12 * \<i> / 25), 16 / 25]])"
proof (rule gab_eval [where linv = inv_exact and S = "NDArray 1 1 [[1]]" and X = "NDArray 1 1 [[1]]"
      and Y = "NDArray 1 2 [[3 / 5, - (4 * \<i> / 5)]]"
      and Z = "NDArray 2 2 [[9 / 25, - (12 * \<i> / 25)], [12 * \<i> / 25, 16 / 25]]"])
  show "dot (transpose_nd (conj_nd A1)) A1 = Inr (NDArray 1 1 [[1]])"
    by (simp add: nd_eval A1_def upt_0_1 complex_eq_iff)
  show "inv_exact (NDArray 1 1 [[1]]) = Inr (NDArray 1 1 [[1]])"
    by (simp add: nd_eval gauss_jordan_1 upt_0_1)
  show "dot (NDArray 1 1 [[1]]) (transpose_nd (conj_nd A1)) = Inr (NDArray 1 2 [[3 / 5, - (4 * \<i> / 5)]])"
    by (simp add: nd_eval A1_def upt_0_1 complex_eq_iff)
  show "dot A1 (NDArray 1 2 [[3 / 5, - (4 * \<i> / 5)]])
      = Inr (NDArray 2 2 [[9 / 25, - (12 * \<i> / 25)], [12 * \<i> / 25, 16 / 25]])"
    by (simp add: nd_eval A1_def upt_0_1 complex_eq_iff)
  show "transpose_nd (NDArray 2 2 [[9 / 25, - (12 * \<i> / 25)], [12 * \<i> / 25, 16 / 25]])
      = NDArray 2 2 [[9 / 25, 12 * \<i> / 25], [- (12 * \<i> / 25), 16 / 25]]"
    by (simp add: nd_eval)
qed

lemma gab_U1_U1:
  "gab inv_exact U1 U1 = Inr (NDArray 2 2 [[1 / 2, 1 / 2], [1 / 2, 1 / 2]])"
proof (rule gab_eval [where linv = inv_exact and S = "NDArray 1 1 [[2]]" and X = "NDArray 1 1 [[1 / 2]]"
      and Y = "NDArray 1 2 [[1 / 2, 1 / 2]]"
      and Z = "NDArray 2 2 [[1 / 2, 1 / 2], [1 / 2, 1 / 2]]"])
  show "dot (transpose_nd (conj_nd U1)) U1 = Inr (NDArray 1 1 [[2]])"
    by (simp add: nd_eval U1_def upt_0_1)
  show "inv_exact (NDArray 1 1 [[2]]) = Inr (NDArray 1 1 [[1 / 2]])"
    by (simp add: nd_eval gauss_jordan_1 upt_0_1)
  show "dot (NDArray 1 1 [[1 / 2]]) (transpose_nd (conj_nd U1)) = Inr (NDArray 1 2 [[1 / 2, 1 / 2]])"
    by (simp add: nd_eval U1_def upt_0_1)
  show "dot U1 (NDArray 1 2 [[1 / 2, 1 / 2]]) = Inr (NDArray 2 2 [[1 / 2, 1 / 2], [1 / 2, 1 / 2]])"
    by (simp add: nd_eval U1_def upt_0_1)
  show "transpose_nd (NDArray 2 2 [[1 / 2, 1 / 2], [1 / 2, 1 / 2]])
      = NDArray 2 2 [[1 / 2, 1 / 2], [1 / 2, 1 / 2]]"
    by (simp add: nd_eval)
qed

lemma local_energy_walker1:
  "local_energy hubbard2
     (NDArray 2 2 [[9 / 25, 12 * \<i> / 25], [- (12 * \<i> / 25), 16 / 25]],
      NDArray 2 2 [[1 / 2, 1 / 2], [1 / 2, 1 / 2]]) = Inr (1, - 1, 2)"
  by (simp add: local_energy_def hubbard2_def add_nd_def mul_nd_def elementwise_def bshape_def
      bindex_def sum_nd_def diag_item_def build_def entry_def upt_0_2 complex_eq_iff)

theorem back_propagated_energy_single_witness:
  "0 < weight bp_walker1 \<and> back_propagated_energy inv_exact hubbard2 [bp_walker1] [bp_walker1] [bp_walker1] = Inr (1, - 1, 2)"
  using back_propagated_energy_single [of bp_walker1 inv_exact hubbard2]
    gab_A1_A1 gab_U1_U1 local_energy_walker1
  by (simp add: bp_walker1_def)

subsection \<open>An orthonormal determinant\<close>

lemma dot_A1: "dot (transpose_nd (conj_nd A1)) A1 = Inr (identity (ncols A1))"
  by (simp add: nd_eval A1_def upt_0_1 complex_eq_iff)

lemma inv_exact_identity1: "inv_exact (identity (ncols A1)) = Inr (identity (ncols A1))"
  by (simp add: nd_eval A1_def gauss_jordan_1 upt_0_1)

theorem gab_orthonormal_witness:
  "dot (transpose_nd (conj_nd A1)) A1 = Inr (identity (ncols A1)) \<and>
   inv_exact (identity (ncols A1)) = Inr (identity (ncols A1)) \<and>
   is_inverse (identity (ncols A1)) (identity (ncols A1)) \<and>
   gab inv_exact A1 A1 = Inr (mmul (conj_nd A1) (transpose_nd A1))"
  using gab_orthonormal [of A1 inv_exact "identity (ncols A1)"]
    dot_A1 inv_exact_identity1 is_inverse_identity [of "ncols A1"]
  by simp

text \<open>
  Claim C5, as stated, fails: the columns of \<open>A1\<close> are orthonormal, and \<^verbatim>\<open>gab(A1, A1)\<close> is
  not \<open>I - A1 A1\<^sup>T\<close>.
\<close>

theorem gab_orthonormal_counterexample:
  "dot (transpose_nd (conj_nd A1)) A1 = Inr (identity (ncols A1)) \<and>
   gab inv_exact A1 A1 \<noteq> sub_nd (identity (nrows A1)) (mmul A1 (transpose_nd A1))"
proof -
  have "sub_nd (identity (nrows A1)) (mmul A1 (transpose_nd A1))
      = Inr (NDArray 2 2 [[16 / 25, - (12 * \<i> / 25)], [- (12 * \<i> / 25), 41 / 25]])"
    by (simp add: sub_nd_def elementwise_def bshape_def bindex_def nd_eval A1_def upt_0_1
        complex_eq_iff)
  then show ?thesis
    using dot_A1 gab_A1_A1 by (simp add: complex_eq_iff)
qed

section \<open>Floating-point arithmetic on complex numbers\<close>

lemma cfin_inject [simp]: "cfin z = cfin w \<longleftrightarrow> z = w"
  by (auto simp: cfin_def complex_eq_iff)

lemma fst_cfin [simp]: "fst (cfin z) = Fin (Re z)"
  by (simp add: cfin_def)

lemma snd_cfin [simp]: "snd (cfin z) = Fin (Im z)"
  by (simp add: cfin_def)

lemma cfl_abs_cfin [simp]: "cfl_abs (cfin z) = Fin (cmod z)"
  by (simp add: cfin_def)

lemma cfl_sub_cfin [simp]: "cfl_sub (cfin z) (cfin w) = cfin (z - w)"
  by (simp add: cfl_sub_def cfin_def fl_sub_def)

lemma cfl_add_cfin [simp]: "cfl_add (cfin z) (cfin w) = cfin (z + w)"
  by (simp add: cfl_add_def cfin_def)

lemma cfl_mul_cfin [simp]: "cfl_mul (cfin z) (cfin w) = cfin (z * w)"
  by (simp add: cfl_mul_def cfin_def fl_sub_def)

lemma cfl_div_real:
  assumes "0 < r"
  shows "cfl_div (cfin z) (cfl_of (Fin r)) = cfin (z / of_real r)"
proof -
  have "Re (z / of_real r) = Re z / r" "Im (z / of_real r) = Im z / r"
    by simp_all
  then show ?thesis
    using assms by (simp add: cfl_div_def cfl_of_def cfin_def fl_ge_def fl_sub_def Let_def)
qed

section \<open>The energy bound\<close>

text \<open>
  Claim C7. For complex numbers \<open>ehyb\<close> and \<open>eshift\<close> and a propagator whose bound is
  \<open>sqrt (2 / dt)\<close> for its positive time step, \<^verbatim>\<open>apply_bound\<close> returns a number whose real
  part is within the bound of the real part of \<open>eshift\<close> and whose imaginary part is that
  of \<open>ehyb\<close>; it returns \<open>ehyb\<close> itself when its real part is within the bound; and it
  adds one to \<^verbatim>\<open>nhe_trig\<close> exactly when \<open>ehyb\<close> is outside the bound, that is, when it clamps.
\<close>

theorem apply_bound_clamps:
  assumes "ebound p = Fin (sqrt (2 / dt p))" and "0 < dt p"
  shows "\<exists>r. apply_bound p (cfin ehyb) (cfin eshift) =
           (p\<lparr>nhe_trig := nhe_trig p +
                  (if \<bar>Re ehyb - Re eshift\<bar> \<le> sqrt (2 / dt p) then 0 else 1)\<rparr>, cfin r) \<and>
         \<bar>Re r - Re eshift\<bar> \<le> sqrt (2 / dt p) \<and>
         Im r = Im ehyb \<and>
         (\<bar>Re ehyb - Re eshift\<bar> \<le> sqrt (2 / dt p) \<longrightarrow> r = ehyb) \<and>
         (r \<noteq> ehyb \<longrightarrow> \<not> \<bar>Re ehyb - Re eshift\<bar> \<le> sqrt (2 / dt p))"
proof -
  define b where "b = sqrt (2 / dt p)"
  have b: "0 \<le> b" using assms(2) by (simp add: b_def)
  have eb: "ebound p = Fin b" using assms(1) by (simp add: b_def)
  consider (hi) "Re eshift + b < Re ehyb" | (lo) "Re ehyb < Re eshift - b"
    | (mid) "Re eshift - b \<le> Re ehyb" "Re ehyb \<le> Re eshift + b"
    by linarith
  then show ?thesis
  proof cases
    case hi
    then have ne: "\<not> \<bar>Re ehyb - Re eshift\<bar> \<le> b" by linarith
    have "apply_bound p (cfin ehyb) (cfin eshift)
        = (p\<lparr>nhe_trig := nhe_trig p + 1\<rparr>, cfin (Complex (Re eshift + b) (Im ehyb)))"
      using hi by (simp add: apply_bound_def eb fl_gt_def cfl_add_def cfl_mul_def cfl_of_def
          fl_sub_def cfin_def)
    then show ?thesis
      unfolding b_def [symmetric] using ne b hi
      by (intro exI [of _ "Complex (Re eshift + b) (Im ehyb)"]) (auto simp: complex_eq_iff)
  next
    case lo
    then have ne: "\<not> \<bar>Re ehyb - Re eshift\<bar> \<le> b" by linarith
    from lo b have nhi: "\<not> Re eshift + b < Re ehyb" by linarith
    have "apply_bound p (cfin ehyb) (cfin eshift)
        = (p\<lparr>nhe_trig := nhe_trig p + 1\<rparr>, cfin (Complex (Re eshift - b) (Im ehyb)))"
      using lo nhi by (simp add: apply_bound_def eb fl_gt_def cfl_add_def cfl_mul_def cfl_of_def
          fl_sub_def cfin_def)
    then show ?thesis
      unfolding b_def [symmetric] using ne b lo
      by (intro exI [of _ "Complex (Re eshift - b) (Im ehyb)"]) (auto simp: complex_eq_iff)
  next
    case mid
    then have le: "\<bar>Re ehyb - Re eshift\<bar> \<le> b" by linarith
    have "apply_bound p (cfin ehyb) (cfin eshift) = (p, cfin ehyb)"
      using mid by (simp add: apply_bound_def eb fl_gt_def fl_sub_def)
    then show ?thesis
      unfolding b_def [symmetric] using le
      by (intro exI [of _ ehyb]) simp
  qed
qed

lemma Continuous_init_ebound:
  assumes "Continuous_init name ext qmc_dt options verb = Inr p"
  shows "ebound p = Fin (sqrt (2 / dt p)) \<and> 0 < dt p \<and> dt p = qmc_dt \<and> nhe_trig p = 0"
  using assms by (auto simp: Continuous_init_def Let_def split: if_splits)

text \<open>
  A hybrid energy whose real part is \<^verbatim>\<open>nan\<close> passes the bound as it is: both comparisons
  are false.
\<close>

lemma fl_lt_NaN_right [simp]: "\<not> fl_lt a NaN"
  by (cases a) simp_all

lemma apply_bound_nan: "apply_bound p (NaN, y) eshift = (p, (NaN, y))"
  by (simp add: apply_bound_def fl_gt_def)

lemma Continuous_init_prop0: "Continuous_init ''Hubbard'' ext0 2 Map.empty False = Inr prop0"
  by (simp add: Continuous_init_def dict_get_def ext0_def prop0_def)

theorem apply_bound_clamps_witness:
  "ebound prop0 = Fin (sqrt (2 / dt prop0)) \<and> 0 < dt prop0 \<and>
   (\<exists>r. apply_bound prop0 (cfin (Complex 5 3)) (cfin 1) = (prop0\<lparr>nhe_trig := 1\<rparr>, cfin r) \<and>
        Re r = 2 \<and> Im r = 3)"
proof -
  have h: "ebound prop0 = Fin (sqrt (2 / dt prop0))" "0 < dt prop0"
    by (simp_all add: prop0_def)
  from apply_bound_clamps [OF h, of "Complex 5 3" 1]
  obtain r where r: "apply_bound prop0 (cfin (Complex 5 3)) (cfin 1)
        = (prop0\<lparr>nhe_trig := nhe_trig prop0 +
             (if \<bar>Re (Complex 5 3) - Re 1\<bar> \<le> sqrt (2 / dt prop0) then 0 else 1)\<rparr>, cfin r)"
      "\<bar>Re r - Re 1\<bar> \<le> sqrt (2 / dt prop0)" "Im r = Im (Complex 5 3)"
    by blast
  have e: "apply_bound prop0 (cfin (Complex 5 3)) (cfin 1)
         = (prop0\<lparr>nhe_trig := 1\<rparr>, cfin (Complex 2 3))"
    by (simp add: apply_bound_def prop0_def cfin_def fl_gt_def cfl_add_def cfl_mul_def cfl_of_def
        fl_sub_def)
  from r(1) e have "r = Complex 2 3" by simp
  with e h show ?thesis by auto
qed

section \<open>The force bias\<close>

lemma cfl_div_abs:
  assumes "1 < cmod z"
  shows "cfl_div (cfin z) (cfl_of (cfl_abs (cfin z))) = cfin (sgn z)"
proof -
  from assms have "0 < cmod z" by linarith
  then show ?thesis
    using cfl_div_real [of "cmod z" z] by (simp add: Complex.sgn_eq)
qed

lemma rescale_force_bias_finite:
  assumes "k \<le> length zs"
  shows "rescale_force_bias p (map cfin zs) [k..<length zs] =
     Returned (p\<lparr>nfb_trig := nfb_trig p + length (filter (\<lambda>z. 1 < cmod z) (drop k zs))\<rparr>)
       (map cfin (take k zs @ map (\<lambda>z. if 1 < cmod z then sgn z else z) (drop k zs)))"
  using assms
proof (induction "length zs - k" arbitrary: k p zs)
  case 0
  then show ?case by simp
next
  case (Suc n)
  then have k: "k < length zs" by linarith
  define c where "c = (\<lambda>z::complex. if 1 < cmod z then sgn z else z)"
  define zs' where "zs' = zs[k := c (zs ! k)]"
  define p' where "p' = (if 1 < cmod (zs ! k) then p\<lparr>nfb_trig := nfb_trig p + 1\<rparr> else p)"
  have len: "length zs' = length zs" by (simp add: zs'_def)
  have upt: "[k..<length zs] = k # [Suc k..<length zs]"
    using k by (simp add: upt_conv_Cons)
  have upd: "(map cfin zs)[k := cfin (c (zs ! k))] = map cfin zs'"
    by (simp add: zs'_def map_update)
  have same: "\<not> 1 < cmod (zs ! k) \<Longrightarrow> zs' = zs"
    by (simp add: zs'_def c_def)
  have step: "rescale_force_bias p (map cfin zs) [k..<length zs]
            = rescale_force_bias p' (map cfin zs') [Suc k..<length zs']"
  proof (cases "1 < cmod (zs ! k)")
    case True
    then have "cfl_div (cfin (zs ! k)) (cfl_of (cfl_abs (cfin (zs ! k)))) = cfin (c (zs ! k))"
      by (simp add: cfl_div_abs c_def del: cfl_abs_cfin)
    with True show ?thesis
      using k upd by (simp add: upt fl_gt_def p'_def len)
  next
    case False
    then show ?thesis
      using k by (simp add: same upt fl_gt_def p'_def)
  qed
  have n: "n = length zs' - Suc k" using Suc.hyps(2) len by simp
  have "rescale_force_bias p' (map cfin zs') [Suc k..<length zs'] =
     Returned (p'\<lparr>nfb_trig := nfb_trig p' + length (filter (\<lambda>z. 1 < cmod z) (drop (Suc k) zs'))\<rparr>)
       (map cfin (take (Suc k) zs' @ map c (drop (Suc k) zs')))"
    unfolding c_def using Suc.hyps(1) [OF n] k len by simp
  moreover have "drop (Suc k) zs' = drop (Suc k) zs"
    by (simp add: zs'_def)
  moreover have "take (Suc k) zs' = take k zs @ [c (zs ! k)]"
    using k by (simp add: zs'_def take_Suc_conv_app_nth)
  moreover have "drop k zs = zs ! k # drop (Suc k) zs"
    using k by (simp add: Cons_nth_drop_Suc)
  moreover have "p'\<lparr>nfb_trig := nfb_trig p' + m\<rparr>
      = p\<lparr>nfb_trig := nfb_trig p + ((if 1 < cmod (zs ! k) then 1 else 0) + m)\<rparr>" for m
    by (simp add: p'_def)
  ultimately show ?case
    unfolding step c_def [symmetric] by (simp add: c_def)
qed

lemma rescale_force_bias_all:
  "rescale_force_bias p (map cfin zs) [0..<length zs] =
     Returned (p\<lparr>nfb_trig := nfb_trig p + length (filter (\<lambda>z. 1 < cmod z) zs)\<rparr>)
       (map cfin (map (\<lambda>z. if 1 < cmod z then sgn z else z) zs))"
  using rescale_force_bias_finite [of 0 zs p] by simp

lemma map2_cfl_sub_cfin:
  "map2 cfl_sub (map cfin xs) (map cfin ys) = map cfin (map2 (-) xs ys)"
  by (simp add: zip_map_map split_def)

lemma vdot_Inr: "length xs = length ys \<Longrightarrow> \<exists>d. vdot xs ys = Inr d"
  by (simp add: vdot_def)

lemma two_body_propagator_finite:
  assumes "force_bias p"
    and "construct_force_bias ext (w_det w) = map cfin zs"
    and "length zs = nfields ext" and "length xs = nfields ext"
    and "length (mf_shift ext) = nfields ext"
  shows "\<exists>cmf cfb w'. two_body_propagator ext (map cfin xs) (p, w) =
           Returned (p\<lparr>nfb_trig := nfb_trig p + length (filter (\<lambda>z. 1 < cmod z) zs)\<rparr>, w')
             (cmf, cfb, map cfin (map2 (\<lambda>x z. x - (if 1 < cmod z then sgn z else z)) xs zs))"
proof -
  define c where "c = (\<lambda>z::complex. if 1 < cmod z then sgn z else z)"
  define p1 where "p1 = p\<lparr>nfb_trig := nfb_trig p + length (filter (\<lambda>z. 1 < cmod z) zs)\<rparr>"
  define xbar where "xbar = map cfin (map c zs)"
  define xshifted where "xshifted = map cfin (map2 (\<lambda>x z. x - c z) xs zs)"
  have loop: "rescale_force_bias p (map cfin zs) [0..<nfields ext] = Returned p1 xbar"
    using rescale_force_bias_all [of p zs] assms(3) by (simp add: p1_def xbar_def c_def)
  have eq: "map2 (-) xs (map c zs) = map2 (\<lambda>x z. x - c z) xs zs"
    by (simp add: zip_map2 split_def)
  have sub: "vsub (map cfin xs) xbar = Inr xshifted"
    using assms(3,4)
    by (simp add: vsub_def xbar_def xshifted_def map2_cfl_sub_cfin eq del: map_map)
  obtain d where d: "vdot xshifted (mf_shift ext) = Inr d"
    using vdot_Inr [of xshifted "mf_shift ext"] assms(3,4,5) by (auto simp: xshifted_def)
  obtain xx where xx: "vdot (map cfin xs) xbar = Inr xx"
    using vdot_Inr [of "map cfin xs" xbar] assms(3,4) by (auto simp: xbar_def)
  obtain bb where bb: "vdot xbar xbar = Inr bb"
    using vdot_Inr [of xbar xbar] by auto
  have "\<exists>cmf cfb w'. two_body_propagator ext (map cfin xs) (p, w) =
           Returned (p1, w') (cmf, cfb, xshifted)"
    using assms(1,2) loop sub d xx bb
    by (simp add: two_body_propagator_def Let_def)
  then show ?thesis
    unfolding p1_def xshifted_def c_def .
qed

text \<open>
  Claim C3, as amended. With the force bias on, a force bias of complex numbers, one for
  each field, and a sample of as many numbers, \<^verbatim>\<open>two_body_propagator\<close> returns; every
  component of the bias of magnitude above 1 has been replaced by the number of magnitude
  1 with its phase (\<open>sgn z\<close>, that is \<open>z / |z|\<close>) before it is taken off the sample; and
  \<^verbatim>\<open>nfb_trig\<close> has grown by the number of the components replaced.
\<close>

theorem two_body_propagator_force_bias:
  assumes "force_bias p"
    and "construct_force_bias ext (w_det w) = map cfin zs"
    and "length zs = nfields ext" and "length xs = nfields ext"
    and "length (mf_shift ext) = nfields ext"
  shows "(\<exists>cmf cfb w'. two_body_propagator ext (map cfin xs) (p, w) =
           Returned (p\<lparr>nfb_trig := nfb_trig p + length (filter (\<lambda>z. 1 < cmod z) zs)\<rparr>, w')
             (cmf, cfb, map cfin (map2 (\<lambda>x z. x - (if 1 < cmod z then sgn z else z)) xs zs))) \<and>
         (\<forall>z \<in> set zs. 1 < cmod z \<longrightarrow> cmod (sgn z) = 1 \<and> of_real (cmod z) * sgn z = z)"
proof
  show "\<exists>cmf cfb w'. two_body_propagator ext (map cfin xs) (p, w) =
           Returned (p\<lparr>nfb_trig := nfb_trig p + length (filter (\<lambda>z. 1 < cmod z) zs)\<rparr>, w')
             (cmf, cfb, map cfin (map2 (\<lambda>x z. x - (if 1 < cmod z then sgn z else z)) xs zs))"
    using assms by (rule two_body_propagator_finite)
next
  show "\<forall>z \<in> set zs. 1 < cmod z \<longrightarrow> cmod (sgn z) = 1 \<and> of_real (cmod z) * sgn z = z"
  proof (intro ballI impI)
    fix z :: complex assume "1 < cmod z"
    then have "z \<noteq> 0" by auto
    then have "cmod (sgn z) = 1"
      by (simp add: norm_sgn)
    moreover have "of_real (cmod z) * sgn z = z"
      using \<open>z \<noteq> 0\<close> by (simp add: Complex.sgn_eq)
    ultimately show "cmod (sgn z) = 1 \<and> of_real (cmod z) * sgn z = z" ..
  qed
qed

lemma force_bias_ext0: "construct_force_bias ext0 (w_det walker0) = map cfin [2, 3 * \<i>]"
  by (simp add: ext0_def cfin_def)

lemma xi0_cfin: "xi0 = map cfin [0, 0]"
  by (simp add: xi0_def cfin_def)

theorem two_body_propagator_force_bias_witness:
  "force_bias prop0 \<and> construct_force_bias ext0 (w_det walker0) = map cfin [2, 3 * \<i>] \<and>
   (\<exists>cmf cfb w'. two_body_propagator ext0 xi0 (prop0, walker0) =
      Returned (prop0\<lparr>nfb_trig := 2\<rparr>, w') (cmf, cfb, map cfin [- 1, - \<i>]))"
proof -
  have h: "force_bias prop0" "length [2, 3 * \<i>] = nfields ext0"
    "length [0, 0 :: complex] = nfields ext0" "length (mf_shift ext0) = nfields ext0"
    by (simp_all add: prop0_def ext0_def)
  have n: "nfb_trig prop0 = 0" by (simp add: prop0_def)
  have s: "sgn (3 * \<i>) = \<i>" "sgn (2 :: complex) = 1"
    by (simp_all add: Complex.sgn_eq norm_mult)
  show ?thesis
    using two_body_propagator_force_bias [OF h(1) force_bias_ext0 h(2,3,4)] h(1) force_bias_ext0
    by (simp add: xi0_cfin n norm_mult s numeral_2_eq_2)
qed

text \<open>
  Claim C3, as stated, fails: in one call with two components of magnitude above 1,
  \<^verbatim>\<open>nfb_trig\<close> goes from 0 to 2.
\<close>

theorem nfb_trig_counterexample:
  "nfb_trig prop0 = 0 \<and>
   nfb_trig (fst (final_state (two_body_propagator ext0 xi0 (prop0, walker0)))) = 2"
proof -
  have h: "force_bias prop0" "length [2, 3 * \<i>] = nfields ext0"
    "length [0, 0 :: complex] = nfields ext0" "length (mf_shift ext0) = nfields ext0"
    by (simp_all add: prop0_def ext0_def)
  have n: "nfb_trig prop0 = 0" by (simp add: prop0_def)
  obtain cmf cfb w' x where
    "two_body_propagator ext0 (map cfin [0, 0]) (prop0, walker0) =
       Returned (prop0\<lparr>nfb_trig := nfb_trig prop0
          + length (filter (\<lambda>z. 1 < cmod z) [2, 3 * \<i>])\<rparr>, w') (cmf, cfb, x)"
    using two_body_propagator_finite [OF h(1) force_bias_ext0 h(2,3,4)] by blast
  then show ?thesis
    by (simp add: xi0_cfin n norm_mult)
qed

section \<open>Free projection\<close>

lemma cfl_abs_zero [simp]: "cfl_abs (Fin 0, Fin 0) = Fin 0"
  by (simp add: cmod_def)

lemma rescale_force_bias_zero:
  assumes "\<forall>i \<in> set is. i < n"
  shows "rescale_force_bias p (replicate n (Fin 0, Fin 0)) is
       = Returned p (replicate n (Fin 0, Fin 0))"
  using assms by (induction "is") (simp_all add: fl_gt_def cmod_def)

lemma two_body_propagator_no_bias:
  assumes "\<not> force_bias p"
  shows "fst (final_state (two_body_propagator ext xi (p, w))) = p"
  using assms
  by (simp add: two_body_propagator_def rescale_force_bias_zero Let_def
      split: sum.splits)

lemma propagate_walker_free_no_bias:
  assumes "\<not> force_bias p"
  shows "fst (final_state (propagate_walker_free ext xi eshift (p, w))) = p"
proof (cases "two_body_propagator ext xi (p, w\<lparr>w_det := kinetic_real ext (w_det w)\<rparr>)")
  case (Raised s1 e)
  then show ?thesis
    using two_body_propagator_no_bias [OF assms, of ext xi "w\<lparr>w_det := kinetic_real ext (w_det w)\<rparr>"]
    by (simp add: propagate_walker_free_def)
next
  case (Returned s1 r)
  obtain p1 w1 where s1: "s1 = (p1, w1)" by (cases s1)
  obtain cmf cfb x where r: "r = (cmf, cfb, x)" by (cases r)
  have "p1 = p"
    using two_body_propagator_no_bias [OF assms, of ext xi "w\<lparr>w_det := kinetic_real ext (w_det w)\<rparr>"]
      Returned s1 by simp
  then show ?thesis
    using Returned s1 r
    by (simp add: propagate_walker_free_def Let_def split: sum.splits prod.splits)
qed

lemma propagate_many_free:
  assumes "free_projection p" "\<not> force_bias p"
  shows "propagate_many ext p steps = p"
proof (induction steps)
  case Nil
  show ?case by simp
next
  case (Cons step steps)
  obtain w xi eshift where step: "step = (w, xi, eshift)" by (cases step)
  have "fst (final_state (propagate_walker ext xi eshift (p, w))) = p"
    using assms propagate_walker_free_no_bias [of p ext xi eshift w]
    by (simp add: propagate_walker_def)
  then show ?case
    using Cons.IH step
    by (cases "propagate_walker ext xi eshift (p, w)") simp_all
qed

text \<open>
  Claim C8. A propagator constructed with a true \<^verbatim>\<open>free_projection\<close> option has the force
  bias off, whatever the \<^verbatim>\<open>force_bias\<close> option says, and \<^verbatim>\<open>nfb_trig\<close> is zero after any
  run of steps, each on any walker with any sample and energy shift, also when a step
  raises.
\<close>

theorem free_projection_never_clamps:
  assumes "Continuous_init name ext qmc_dt options verb = Inr p"
    and "truthy (dict_get options ''free_projection'' (PyBool False))"
  shows "free_projection p \<and> \<not> force_bias p \<and> nfb_trig p = 0 \<and>
         nfb_trig (propagate_many ext p steps) = 0"
proof -
  from assms have "free_projection p" "\<not> force_bias p" "nfb_trig p = 0"
    by (auto simp: Continuous_init_def Let_def split: if_splits)
  then show ?thesis
    by (simp add: propagate_many_free)
qed

theorem free_projection_never_clamps_witness:
  "Continuous_init ''Hubbard'' ext0 2
     [''free_projection'' \<mapsto> PyBool True, ''force_bias'' \<mapsto> PyBool True] False
     = Inr (prop0\<lparr>free_projection := True, force_bias := False\<rparr>) \<and>
   truthy (dict_get [''free_projection'' \<mapsto> PyBool True, ''force_bias'' \<mapsto> PyBool True]
             ''free_projection'' (PyBool False)) \<and>
   nfb_trig (propagate_many ext0 (prop0\<lparr>free_projection := True, force_bias := False\<rparr>)
               [(walker0, xi0, (Fin 0, Fin 0)), (walker0, xi0, (Fin 1, Fin 0))]) = 0"
proof -
  have i: "Continuous_init ''Hubbard'' ext0 2
     [''free_projection'' \<mapsto> PyBool True, ''force_bias'' \<mapsto> PyBool True] False
     = Inr (prop0\<lparr>free_projection := True, force_bias := False\<rparr>)"
    by (simp add: Continuous_init_def dict_get_def ext0_def prop0_def)
  have t: "truthy (dict_get [''free_projection'' \<mapsto> PyBool True, ''force_bias'' \<mapsto> PyBool True]
             ''free_projection'' (PyBool False))"
    by (simp add: dict_get_def)
  show ?thesis
    using free_projection_never_clamps [OF i t,
        of "[(walker0, xi0, (Fin 0, Fin 0)), (walker0, xi0, (Fin 1, Fin 0))]"] i t
    by blast
qed

section \<open>The phaseless step\<close>

text \<open>
  When the modulus of the importance function is infinite, the step sets the weight to
  zero and stores the new overlap.
\<close>

lemma phaseless_infinite_modulus:
  assumes "phaseless_importance ext xi eshift s =
             Returned (p2, w2) (cfb, xmxbar, ot_new, hybrid_energy, importance_function)"
    and "isinf (fst (py_polar importance_function))"
  shows "propagate_walker_phaseless ext xi eshift s =
           Returned (p2, w2\<lparr>w_hybrid_energy := hybrid_energy, w_ot := ot_new, w_weight := Fin 0\<rparr>) ()"
  using assms by (simp add: propagate_walker_phaseless_def)

text \<open>
  When the modulus is \<^verbatim>\<open>nan\<close>, the test \<^verbatim>\<open>math.isinf\<close> fails and the step takes the branch
  of the finite modulus: if it returns, the weight is \<^verbatim>\<open>nan\<close>.
\<close>

lemma fl_mul_NaN_right [simp]: "fl_mul a NaN = NaN"
  by (cases a) simp_all

lemma phaseless_nan_modulus:
  assumes "phaseless_importance ext xi eshift s =
             Returned (p2, w2) (cfb, xmxbar, ot_new, hybrid_energy, importance_function)"
    and "fst (py_polar importance_function) = NaN"
    and "propagate_walker_phaseless ext xi eshift s = Returned (p', w') ()"
  shows "w_weight w' = NaN \<and> w_ot w' = ot_new"
  using assms
  by (auto simp: propagate_walker_phaseless_def isinf_def Let_def split: sum.splits)

lemmas fl_eval =
  cfl_div_def cfl_neg_def cfl_add_def cfl_sub_def cfl_mul_def cfl_of_def fl_sub_def
  fl_gt_def fl_ge_def Let_def

lemma two_body_propagator_nofb:
  "\<not> force_bias p \<Longrightarrow>
   two_body_propagator ext0 xi0 (p, w\<lparr>w_det := ()\<rparr>)
   = Returned (p, w\<lparr>w_det := ()\<rparr>) ((Fin 0, Fin 0), (Fin 0, Fin 0), xi0)"
  by (simp add: two_body_propagator_def ext0_def xi0_def
      upt_0_2 vsub_def vdot_def fl_eval numeral_2_eq_2 cmod_def)

lemma two_body_propagator_nofb_nan:
  "\<not> force_bias p \<Longrightarrow>
   two_body_propagator ext_nan xi0 (p, w\<lparr>w_det := ()\<rparr>)
   = Returned (p, w\<lparr>w_det := ()\<rparr>) ((Fin 0, Fin 0), (Fin 0, Fin 0), xi0)"
  by (simp add: two_body_propagator_def ext_nan_def ext0_def xi0_def
      upt_0_2 vsub_def vdot_def fl_eval numeral_2_eq_2 cmod_def)

lemma Arg_Complex_1_0 [simp]: "Arg (Complex 1 0) = 0"
proof -
  have "Complex 1 0 = 1" by (simp add: complex_eq_iff)
  moreover have "Arg 1 = 0" by (rule cis_Arg_unique) simp_all
  ultimately show ?thesis by simp
qed

text \<open>
  Two regular steps of the walker of weight \<open>3/2\<close>, with sample and energy shift zero. With
  the constant factor 1 the importance function is 1 and the weight stays as it is; with
  an infinite constant factor the modulus is infinite and the weight becomes zero.
\<close>

lemma phaseless_regular_step:
  "propagate_walker_phaseless ext0 xi0 (Fin 0, Fin 0) (prop_nofb, walker1) =
     Returned (prop_nofb,
       walker1\<lparr>w_field_configs := Some [(xi0, ((Fin 1, Fin 0), (Fin 1, Fin 0)))]\<rparr>) ()"
proof -
  have k: "kinetic_real ext0 = (\<lambda>d. d)" "greens_function ext0 = (\<lambda>d. d)"
    "inverse_overlap ext0 = (\<lambda>d. d)" "calc_otrial ext0 = (\<lambda>d. (Fin 1, Fin 0))"
    by (simp_all add: ext0_def)
  have t: "two_body_propagator ext0 xi0 (prop_nofb, walker1\<lparr>w_det := ()\<rparr>)
         = Returned (prop_nofb, walker1\<lparr>w_det := ()\<rparr>) ((Fin 0, Fin 0), (Fin 0, Fin 0), xi0)"
    by (rule two_body_propagator_nofb) (simp add: prop_nofb_def)
  have w: "walker1\<lparr>w_det := ()\<rparr> = walker1" by simp
  have i: "phaseless_importance ext0 xi0 (Fin 0, Fin 0) (prop_nofb, walker1)
     = Returned (prop_nofb, walker1)
         ((Fin 0, Fin 0), xi0, (Fin 1, Fin 0), (Fin 0, Fin 0), (Fin 1, Fin 0))"
    unfolding phaseless_importance_def
    by (simp add: k t [unfolded w] w)
       (simp add: walker1_def walker0_def prop_nofb_def prop0_def py_clog_def apply_bound_def
          fl_eval cmod_def)
  show ?thesis
    unfolding propagate_walker_phaseless_def
    by (simp add: i isinf_def py_polar_def cmod_def)
       (simp add: walker1_def walker0_def prop_nofb_def prop0_def max0_def fl_eval)
qed

lemma phaseless_infinite_step:
  "propagate_walker_phaseless ext0 xi0 (Fin 0, Fin 0)
      (prop_nofb\<lparr>mf_const_fac := PInf\<rparr>, walker1) =
     Returned (prop_nofb\<lparr>mf_const_fac := PInf\<rparr>, walker1\<lparr>w_weight := Fin 0\<rparr>) ()"
proof -
  have k: "kinetic_real ext0 = (\<lambda>d. d)" "greens_function ext0 = (\<lambda>d. d)"
    "inverse_overlap ext0 = (\<lambda>d. d)" "calc_otrial ext0 = (\<lambda>d. (Fin 1, Fin 0))"
    by (simp_all add: ext0_def)
  have t: "two_body_propagator ext0 xi0 (prop_nofb\<lparr>mf_const_fac := PInf\<rparr>, walker1\<lparr>w_det := ()\<rparr>)
         = Returned (prop_nofb\<lparr>mf_const_fac := PInf\<rparr>, walker1\<lparr>w_det := ()\<rparr>)
             ((Fin 0, Fin 0), (Fin 0, Fin 0), xi0)"
    by (rule two_body_propagator_nofb) (simp add: prop_nofb_def)
  have w: "walker1\<lparr>w_det := ()\<rparr> = walker1" by simp
  have i: "phaseless_importance ext0 xi0 (Fin 0, Fin 0) (prop_nofb\<lparr>mf_const_fac := PInf\<rparr>, walker1)
     = Returned (prop_nofb\<lparr>mf_const_fac := PInf\<rparr>, walker1)
         ((Fin 0, Fin 0), xi0, (Fin 1, Fin 0), (Fin 0, Fin 0), (PInf, NaN))"
    unfolding phaseless_importance_def
    by (simp add: k t [unfolded w] w)
       (simp add: walker1_def walker0_def prop_nofb_def prop0_def py_clog_def apply_bound_def
          fl_eval cmod_def inf_of_sign_def)
  show ?thesis
    unfolding propagate_walker_phaseless_def
    by (simp add: i isinf_def py_polar_def)
       (simp add: walker1_def walker0_def)
qed

lemma phaseless_importance_nan:
  "phaseless_importance ext_nan xi0 (Fin 0, Fin 0) (prop_nofb, walker0)
   = Returned (prop_nofb, walker0)
       ((Fin 0, Fin 0), xi0, (NaN, NaN), (NaN, NaN), (NaN, NaN))"
proof -
  have k: "kinetic_real ext_nan = (\<lambda>d. d)" "greens_function ext_nan = (\<lambda>d. d)"
    "inverse_overlap ext_nan = (\<lambda>d. d)" "calc_otrial ext_nan = (\<lambda>d. (NaN, NaN))"
    by (simp_all add: ext_nan_def ext0_def)
  have t: "two_body_propagator ext_nan xi0 (prop_nofb, walker0\<lparr>w_det := ()\<rparr>)
         = Returned (prop_nofb, walker0\<lparr>w_det := ()\<rparr>) ((Fin 0, Fin 0), (Fin 0, Fin 0), xi0)"
    by (rule two_body_propagator_nofb_nan) (simp add: prop_nofb_def)
  have w: "walker0\<lparr>w_det := ()\<rparr> = walker0" by simp
  show ?thesis
    unfolding phaseless_importance_def
    by (simp add: k t [unfolded w] w)
       (simp add: walker0_def prop_nofb_def prop0_def py_clog_def apply_bound_def fl_eval)
qed

text \<open>
  Claim C2 at a failing input: the new overlap of the walker is \<^verbatim>\<open>nan\<close>, the modulus of the
  importance function is \<^verbatim>\<open>nan\<close>, and the step returns with the weight \<^verbatim>\<open>nan\<close>, not zero.
\<close>

theorem phaseless_nan_weight_not_zero:
  "(\<exists>cfb xmxbar ot_new hybrid_energy importance_function.
      phaseless_importance ext_nan xi0 (Fin 0, Fin 0) (prop_nofb, walker0) =
        Returned (prop_nofb, walker0) (cfb, xmxbar, ot_new, hybrid_energy, importance_function) \<and>
      fst (py_polar importance_function) = NaN) \<and>
   propagate_walker_phaseless ext_nan xi0 (Fin 0, Fin 0) (prop_nofb, walker0) =
     Returned (prop_nofb,
       walker0\<lparr>w_hybrid_energy := (NaN, NaN), w_weight := NaN, w_ot := (NaN, NaN),
               w_field_configs := Some [(xi0, ((Fin 0, Fin 0), (Fin 0, Fin 0)))]\<rparr>) () \<and>
   NaN \<noteq> Fin 0"
proof -
  have m: "fst (py_polar (NaN, NaN)) = NaN"
    by (simp add: py_polar_def)
  have "propagate_walker_phaseless ext_nan xi0 (Fin 0, Fin 0) (prop_nofb, walker0) =
     Returned (prop_nofb,
       walker0\<lparr>w_hybrid_energy := (NaN, NaN), w_weight := NaN, w_ot := (NaN, NaN),
               w_field_configs := Some [(xi0, ((Fin 0, Fin 0), (Fin 0, Fin 0)))]\<rparr>) ()"
    unfolding propagate_walker_phaseless_def
    by (simp add: phaseless_importance_nan m isinf_def)
       (simp add: walker0_def prop_nofb_def prop0_def max0_def fl_eval)
  with phaseless_importance_nan m show ?thesis by blast
qed

lemma phaseless_importance_nan_eshift:
  "phaseless_importance ext0 xi0 (NaN, Fin 0) (prop_nofb, walker1)
   = Returned (prop_nofb, walker1)
       ((Fin 0, Fin 0), xi0, (Fin 1, Fin 0), (Fin 0, Fin 0), (NaN, NaN))"
proof -
  have k: "kinetic_real ext0 = (\<lambda>d. d)" "greens_function ext0 = (\<lambda>d. d)"
    "inverse_overlap ext0 = (\<lambda>d. d)" "calc_otrial ext0 = (\<lambda>d. (Fin 1, Fin 0))"
    by (simp_all add: ext0_def)
  have t: "two_body_propagator ext0 xi0 (prop_nofb, walker1\<lparr>w_det := ()\<rparr>)
         = Returned (prop_nofb, walker1\<lparr>w_det := ()\<rparr>) ((Fin 0, Fin 0), (Fin 0, Fin 0), xi0)"
    by (rule two_body_propagator_nofb) (simp add: prop_nofb_def)
  have w: "walker1\<lparr>w_det := ()\<rparr> = walker1" by simp
  show ?thesis
    unfolding phaseless_importance_def
    by (simp add: k t [unfolded w] w)
       (simp add: walker1_def walker0_def prop_nofb_def prop0_def py_clog_def apply_bound_def
          fl_eval cmod_def)
qed

text \<open>
  Claim C4 at a failing input: the walker has weight \<open>3/2\<close> and a phase of modulus 1, the
  energy shift is \<^verbatim>\<open>nan\<close>, the modulus of the importance function is \<^verbatim>\<open>nan\<close>, and the step
  returns with the weight \<^verbatim>\<open>nan\<close>, for which \<^verbatim>\<open>weight >= 0\<close> is false.
\<close>

theorem phaseless_weight_not_nonnegative:
  "fl_ge (w_weight walker1) (Fin 0) \<and> cfl_abs (w_phase walker1) = Fin 1 \<and>
   propagate_walker_phaseless ext0 xi0 (NaN, Fin 0) (prop_nofb, walker1) =
     Returned (prop_nofb,
       walker1\<lparr>w_weight := NaN,
               w_field_configs := Some [(xi0, ((Fin 0, Fin 0), (Fin 0, Fin 0)))]\<rparr>) () \<and>
   \<not> fl_ge NaN (Fin 0)"
proof -
  have m: "fst (py_polar (NaN, NaN)) = NaN"
    by (simp add: py_polar_def)
  have "propagate_walker_phaseless ext0 xi0 (NaN, Fin 0) (prop_nofb, walker1) =
     Returned (prop_nofb,
       walker1\<lparr>w_weight := NaN,
               w_field_configs := Some [(xi0, ((Fin 0, Fin 0), (Fin 0, Fin 0)))]\<rparr>) ()"
    unfolding propagate_walker_phaseless_def
    by (simp add: phaseless_importance_nan_eshift m isinf_def)
       (simp add: walker1_def walker0_def prop_nofb_def prop0_def max0_def fl_eval)
  moreover have "fl_ge (w_weight walker1) (Fin 0)" "cfl_abs (w_phase walker1) = Fin 1"
    by (simp_all add: walker1_def walker0_def fl_ge_def cmod_def)
  ultimately show ?thesis by (simp add: fl_ge_def)
qed

text \<open>
  The walker that a call of \<^verbatim>\<open>two_body_propagator\<close> leaves differs from the walker it was
  given in the determinant only, and the phaseless step never writes the phase.
\<close>

lemma two_body_propagator_walker:
  "\<exists>d. snd (final_state (two_body_propagator ext xi (p, w))) = w\<lparr>w_det := d\<rparr>"
proof -
  have id: "w = w\<lparr>w_det := w_det w\<rparr>" by simp
  show ?thesis
    unfolding two_body_propagator_def Let_def
    by (auto split: sum.splits outcome.splits intro: exI [of _ "w_det w"])
qed

lemma phaseless_importance_walker:
  "\<exists>d. snd (final_state (phaseless_importance ext xi eshift (p, w))) = w\<lparr>w_det := d\<rparr>"
proof -
  define w0 where "w0 = w\<lparr>w_det := kinetic_real ext (w_det w)\<rparr>"
  obtain d where d: "snd (final_state (two_body_propagator ext xi (p, w0))) = w0\<lparr>w_det := d\<rparr>"
    using two_body_propagator_walker [of ext xi p w0] by auto
  show ?thesis
  proof (cases "two_body_propagator ext xi (p, w0)")
    case (Raised s1 e)
    with d have "snd s1 = w\<lparr>w_det := d\<rparr>" by (simp add: w0_def)
    with Raised show ?thesis
      by (auto simp: phaseless_importance_def w0_def)
  next
    case (Returned s1 r)
    obtain p1 w1 where s1: "s1 = (p1, w1)" by (cases s1)
    obtain cmf cfb x where r: "r = (cmf, cfb, x)" by (cases r)
    from d Returned s1 have w1: "w1 = w\<lparr>w_det := d\<rparr>" by (simp add: w0_def)
    show ?thesis
      using Returned s1 r w1
      by (auto simp: phaseless_importance_def w0_def Let_def split: sum.splits prod.splits)
  qed
qed

lemma max0_py_cos: "py_cos x = Inr c \<Longrightarrow> \<exists>cf. max0 c = Fin cf \<and> 0 \<le> cf"
  by (cases x) (auto simp: max0_def fl_gt_def)

text \<open>
  The rest of the invariant of claim C4 holds: the phaseless step leaves the phase as it
  is, and a weight that is a non-negative number stays one whenever the modulus of the
  importance function is not \<^verbatim>\<open>nan\<close>.
\<close>

lemma phaseless_invariant_unless_nan:
  assumes imp: "phaseless_importance ext xi eshift (p, w) =
             Returned (p2, w2) (cfb, xmxbar, ot_new, hybrid_energy, importance_function)"
    and m: "fst (py_polar importance_function) \<noteq> NaN"
    and w: "w_weight w = Fin a" "0 \<le> a"
  shows "\<exists>b. w_weight (snd (final_state (propagate_walker_phaseless ext xi eshift (p, w)))) = Fin b
              \<and> 0 \<le> b"
    and "w_phase (snd (final_state (propagate_walker_phaseless ext xi eshift (p, w)))) = w_phase w"
proof -
  obtain d where "snd (final_state (phaseless_importance ext xi eshift (p, w))) = w\<lparr>w_det := d\<rparr>"
    using phaseless_importance_walker [of ext xi eshift p w] by auto
  with imp have w2: "w2 = w\<lparr>w_det := d\<rparr>" by simp
  define magn where "magn = fst (py_polar importance_function)"
  have magn: "magn = PInf \<or> (\<exists>r. magn = Fin r \<and> 0 \<le> r)"
  proof -
    obtain x y where xy: "importance_function = (x, y)" by (cases importance_function)
    show ?thesis
      using m unfolding magn_def py_polar_def xy
      by (cases x; cases y) simp_all
  qed
  show "w_phase (snd (final_state (propagate_walker_phaseless ext xi eshift (p, w)))) = w_phase w"
    using imp w2
    by (auto simp: propagate_walker_phaseless_def Let_def split: sum.splits)
  show "\<exists>b. w_weight (snd (final_state (propagate_walker_phaseless ext xi eshift (p, w)))) = Fin b
              \<and> 0 \<le> b"
  proof (cases "isinf magn")
    case True
    then show ?thesis
      using imp by (simp add: propagate_walker_phaseless_def magn_def)
  next
    case False
    with magn obtain r where r: "magn = Fin r" "0 \<le> r" by (auto simp: isinf_def)
    show ?thesis
    proof (cases "py_cos (snd (cfl_sub (cfl_mul (cfl_of (Fin (- dt p2))) hybrid_energy) cfb))")
      case (Inl e)
      then show ?thesis
        using imp False w w2 by (simp add: propagate_walker_phaseless_def magn_def Let_def)
    next
      case (Inr c)
      obtain cf where cf: "max0 c = Fin cf" "0 \<le> cf" using max0_py_cos [OF Inr] by blast
      then show ?thesis
        using imp False w w2 Inr r
        by (simp add: propagate_walker_phaseless_def magn_def [symmetric] Let_def)
    qed
  qed
qed

end
